theory Spec2Isabelle
  imports Main "HOL-Library.AList" "HOL-Library.Char_ord" "HOL-Library.List_Lexorder"
begin

section \<open>The quiz "Who'd they play for?": data model\<close>

text \<open>
  The program is a Streamlit script (\<^verbatim>\<open>Whod_they_play_for.py\<close>). Each user interaction
  re-executes \<^verbatim>\<open>create_streamlit_app\<close> from the top against the dictionary
  \<^verbatim>\<open>st.session_state\<close>. The embedding makes explicit what the script leaves to its
  environment:
  \<^item> the table \<^verbatim>\<open>streamlit.Fbref_Appearances\<close> is a list of rows;
  \<^item> \<^verbatim>\<open>st.session_state\<close> is an insertion-ordered association list from string keys to
    values, passed in and returned;
  \<^item> what the widgets return in one pass (the multiselect's list, whether a button was
    clicked) and the indices picked by \<^verbatim>\<open>random.choice\<close> are inputs of the pass;
  \<^item> \<^verbatim>\<open>st.rerun()\<close> and Python exceptions end the pass; the state keeps every
    mutation made before them;
  \<^item> the entries that the framework writes for keyed widgets
    (\<^verbatim>\<open>multiselect_level_k\<close>, \<^verbatim>\<open>reveal_button_k\<close>) are not written by the model: the
    script only deletes them, they hold lists and truth values, which never equal a
    player name, and the invariants below concern other keys;
  \<^item> a level is a natural number (the script passes 1 to 10), and SQL's string
    comparison is equality of strings.
  Text written to the page is not modelled, except for the verdict of a level and the
  two numbers of the "incorrect" message.
\<close>

record appearance =
  player_name :: string
  team_name :: string
  competition_name :: string
  number_of_seasons :: int
  game_date :: nat

type_synonym database = "appearance list"

datatype py_error = IndexError | KeyError | TypeError | AttributeError

text \<open>The values the script stores in \<^verbatim>\<open>st.session_state\<close>: player names and difficulty
  names (strings), selections (lists of club names) and the reveal counter (an integer).\<close>

datatype val = VStr string | VList "string list" | VInt int

type_synonym session_state = "(string \<times> val) list"

definition has_key :: "session_state \<Rightarrow> string \<Rightarrow> bool" where
  "has_key s k = (map_of s k \<noteq> None)"

definition state_values :: "session_state \<Rightarrow> val list" where
  "state_values s = map snd s"

text \<open>How a pass ends: the function returns, \<^verbatim>\<open>st.rerun()\<close> stops it, or an exception
  escapes.\<close>

datatype 'a completion = Return 'a | Rerun | Raise py_error

subsection \<open>Python and pandas primitives\<close>

text \<open>\<^verbatim>\<open>random.choice(seq)\<close> raises IndexError on an empty sequence; otherwise it returns
  the element at an index below \<^verbatim>\<open>len(seq)\<close>. The index is supplied by the environment
  (any natural number, reduced modulo the length).\<close>

definition random_choice :: "nat \<Rightarrow> 'a list \<Rightarrow> py_error + 'a" where
  "random_choice r xs = (if xs = [] then Inl IndexError else Inr (xs ! (r mod length xs)))"

text \<open>\<^verbatim>\<open>str(n)\<close> for a non-negative integer, as the f-strings of the keys use it.\<close>

definition digit_char :: "nat \<Rightarrow> char" where
  "digit_char d = ''0123456789'' ! d"

function str_nat :: "nat \<Rightarrow> string" where
  "str_nat n = (if n < 10 then [digit_char n] else str_nat (n div 10) @ [digit_char (n mod 10)])"
  by pat_completeness auto
termination
  by (relation "measure id") auto

declare str_nat.simps [simp del]

text \<open>\<^verbatim>\<open>Series.mode()\<close>: the values that occur most often, in ascending order (an empty
  series has no mode); \<^verbatim>\<open>.iat[0]\<close> raises IndexError on an empty result.\<close>

definition max_count :: "int list \<Rightarrow> nat" where
  "max_count xs = fold max (map (count_list xs) xs) 0"

definition series_mode :: "int list \<Rightarrow> int list" where
  "series_mode xs = sort (remdups (filter (\<lambda>x. count_list xs x = max_count xs) xs))"

definition iat0 :: "'a list \<Rightarrow> py_error + 'a" where
  "iat0 xs = (case xs of [] \<Rightarrow> Inl IndexError | x # _ \<Rightarrow> Inr x)"

text \<open>Binding the keyword arguments of a call to a function whose signature declares
  the parameters \<open>params\<close> (none of them required): a keyword that the signature does
  not declare raises TypeError before the body runs.\<close>

definition bind_keywords :: "string list \<Rightarrow> (string \<times> string) list \<Rightarrow> py_error + unit" where
  "bind_keywords params kwargs =
     (if list_all (\<lambda>kw. fst kw \<in> set params) kwargs then Inr () else Inl TypeError)"

section \<open>Data access\<close>

text \<open>\<^verbatim>\<open>def connect_to_sql_alchemy_server():\<close> declares no parameter. In the main source
  every caller passes no argument, so the call always binds and yields the engine, here
  the table itself; the queries below are therefore functions of the table.\<close>

definition connect_to_sql_alchemy_server :: "database \<Rightarrow> (string \<times> string) list \<Rightarrow> py_error + database" where
  "connect_to_sql_alchemy_server db kwargs =
     (case bind_keywords [] kwargs of Inl e \<Rightarrow> Inl e | Inr _ \<Rightarrow> Inr db)"

definition champions_league :: "appearance \<Rightarrow> bool" where
  "champions_league r = (competition_name r = ''Champions League'')"

text \<open>\<^verbatim>\<open>MAX(game_date)\<close> over the competition's rows; \<open>None\<close> is SQL's NULL on no row.\<close>

definition load_latest_game_date :: "database \<Rightarrow> nat option" where
  "load_latest_game_date db =
     (case map game_date (filter champions_league db) of
        [] \<Rightarrow> None
      | d # ds \<Rightarrow> Some (fold max ds d))"

definition load_players :: "database \<Rightarrow> int \<Rightarrow> string list" where
  "load_players db minimum_seasons =
     sort (remdups (map player_name
       (filter (\<lambda>r. champions_league r \<and> number_of_seasons r \<ge> minimum_seasons) db)))"

text \<open>The query selects the distinct pairs (team_name, number_of_seasons) of the player.\<close>

definition player_rows :: "database \<Rightarrow> string \<Rightarrow> (string \<times> int) list" where
  "player_rows db player =
     remdups (map (\<lambda>r. (team_name r, number_of_seasons r))
       (filter (\<lambda>r. champions_league r \<and> player_name r = player) db))"

definition load_players_data :: "database \<Rightarrow> string \<Rightarrow> py_error + (string list \<times> int)" where
  "load_players_data db player =
     (let df = player_rows db player;
          teams = sort (map fst df)
      in case iat0 (series_mode (map snd df)) of
           Inl e \<Rightarrow> Inl e
         | Inr seasons \<Rightarrow> Inr (teams, seasons))"

definition load_unique_teams :: "database \<Rightarrow> string list" where
  "load_unique_teams db = sort (remdups (map team_name db))"

subsection \<open>The variant source (\<^verbatim>\<open>src/unnamed/part_000\<close>)\<close>

text \<open>The variant keeps the same parameterless \<^verbatim>\<open>connect_to_sql_alchemy_server\<close>, but its
  four data-access functions call it as
  \<^verbatim>\<open>connect_to_sql_alchemy_server(server_type="prod")\<close> before they build their query.\<close>

definition variant_connect :: "database \<Rightarrow> py_error + database" where
  "variant_connect db = connect_to_sql_alchemy_server db [(''server_type'', ''prod'')]"

definition variant_load_latest_game_date :: "database \<Rightarrow> py_error + nat option" where
  "variant_load_latest_game_date db =
     (case variant_connect db of Inl e \<Rightarrow> Inl e
      | Inr sql_engine \<Rightarrow> Inr (load_latest_game_date sql_engine))"

definition variant_load_players :: "database \<Rightarrow> int \<Rightarrow> py_error + string list" where
  "variant_load_players db minimum_seasons =
     (case variant_connect db of Inl e \<Rightarrow> Inl e
      | Inr sql_engine \<Rightarrow> Inr (load_players sql_engine minimum_seasons))"

definition variant_load_players_data :: "database \<Rightarrow> string \<Rightarrow> py_error + (string list \<times> int)" where
  "variant_load_players_data db player =
     (case variant_connect db of Inl e \<Rightarrow> Inl e
      | Inr sql_engine \<Rightarrow> load_players_data sql_engine player)"

definition variant_load_unique_teams :: "database \<Rightarrow> py_error + string list" where
  "variant_load_unique_teams db =
     (case variant_connect db of Inl e \<Rightarrow> Inl e
      | Inr sql_engine \<Rightarrow> Inr (load_unique_teams sql_engine))"

section \<open>Difficulties and thresholds\<close>

definition game_difficulty :: "(string \<times> int) list" where
  "game_difficulty =
     [(''Select a difficulty level'', 0), (''Easy'', 17), (''Normal'', 14), (''Hard'', 10)]"

definition reveals_per_difficulty :: "(string \<times> int) list" where
  "reveals_per_difficulty = [(''Easy'', 3), (''Normal'', 2), (''Hard'', 1)]"

text \<open>The arguments \<^verbatim>\<open>(level, min_seasons, starting_min_seasons)\<close> that the loop
  \<^verbatim>\<open>for level in range(1, 11)\<close> of \<^verbatim>\<open>create_streamlit_app\<close> passes to
  \<^verbatim>\<open>render_level\<close>, given \<^verbatim>\<open>game_difficulty[difficulty_selection]\<close>.\<close>

definition level_arguments :: "int \<Rightarrow> nat \<Rightarrow> nat \<times> int \<times> int" where
  "level_arguments start level = (level, start + 1 - int level, start)"

definition level_calls :: "string \<Rightarrow> py_error + (nat \<times> int \<times> int) list" where
  "level_calls difficulty_selection =
     (case map_of game_difficulty difficulty_selection of
        None \<Rightarrow> Inl KeyError
      | Some start \<Rightarrow> Inr (map (level_arguments start) [1..<11]))"

section \<open>The level engine: \<^verbatim>\<open>render_level\<close>\<close>

text \<open>What the environment supplies to one call of \<^verbatim>\<open>render_level\<close>: the list returned
  by \<^verbatim>\<open>st.multiselect\<close>, whether the "Reveal 1 Team" and "Play Again" buttons were clicked,
  and the indices of the three \<^verbatim>\<open>random.choice\<close> calls. The multiselect returns a
  selection among the options of \<^verbatim>\<open>load_unique_teams()\<close>, a list without duplicates; the
  theorems that depend on it assume \<open>distinct (multiselect inp)\<close>.\<close>

record level_input =
  multiselect :: "string list"
  reveal_button :: bool
  play_again_button :: bool
  choice_player :: nat
  choice_reveal :: nat
  choice_restart :: nat

text \<open>The verdict shown for the level: nothing, "That is correct!", or "Unlucky, that
  is incorrect" with \<^verbatim>\<open>wrong_answers\<close> and \<^verbatim>\<open>len(correct_answers)\<close>.\<close>

datatype verdict = NotEvaluated | EvaluatedCorrect | EvaluatedIncorrect "string set" nat

type_synonym level_result = "verdict \<times> bool completion \<times> session_state"

definition player_key :: "nat \<Rightarrow> string" where
  "player_key level = ''level_'' @ str_nat level @ ''_player''"

definition selection_key :: "nat \<Rightarrow> string" where
  "selection_key level = ''level_'' @ str_nat level @ ''_selection''"

definition multiselect_key :: "nat \<Rightarrow> string" where
  "multiselect_key level = ''multiselect_level_'' @ str_nat level"

text \<open>\<^verbatim>\<open>[p for p in level_players if p not in st.session_state.values()]\<close>: a player
  name is dropped when it equals any value of the state (a string never equals a list
  or an integer).\<close>

definition exclude_used :: "session_state \<Rightarrow> string list \<Rightarrow> string list" where
  "exclude_used s level_players = filter (\<lambda>p. VStr p \<notin> set (state_values s)) level_players"

text \<open>Lines 163 to 194: the pool, the draw when the level has no player yet, and the
  empty selection when the level has none.\<close>

definition assign_player :: "database \<Rightarrow> nat \<Rightarrow> nat \<Rightarrow> int \<Rightarrow> session_state \<Rightarrow> py_error + session_state" where
  "assign_player db r level min_seasons s =
     (let level_players = exclude_used s (load_players db min_seasons);
          drawn = (if \<not> has_key s (player_key level)
                   then (case random_choice r level_players of
                           Inl e \<Rightarrow> Inl e
                         | Inr p \<Rightarrow> Inr (AList.update (player_key level) (VStr p) s))
                   else Inr s)
      in case drawn of
           Inl e \<Rightarrow> Inl e
         | Inr s1 \<Rightarrow>
             Inr (if \<not> has_key s1 (selection_key level)
                  then AList.update (selection_key level) (VList []) s1
                  else s1))"

text \<open>Lines 196 to 198: the level's player and the player's clubs. A stored player
  that is not a string (the script never stores one) cannot be looked up.\<close>

definition level_answers_of :: "database \<Rightarrow> nat \<Rightarrow> session_state \<Rightarrow> py_error + string list" where
  "level_answers_of db level s =
     (case map_of s (player_key level) of
        None \<Rightarrow> Inl KeyError
      | Some (VStr level_player) \<Rightarrow>
          (case load_players_data db level_player of
             Inl e \<Rightarrow> Inl e
           | Inr (level_answers, seasons) \<Rightarrow> Inr level_answers)
      | Some _ \<Rightarrow> Inl TypeError)"

text \<open>Lines 235 to 242: the body of the reveal button.\<close>

definition reveal_team :: "nat \<Rightarrow> nat \<Rightarrow> string list \<Rightarrow> session_state \<Rightarrow> level_result" where
  "reveal_team r level level_answers s =
     (case random_choice r level_answers of
        Inl e \<Rightarrow> (NotEvaluated, Raise e, s)
      | Inr revealed_team \<Rightarrow>
          (case map_of s (selection_key level) of
             Some (VList selection) \<Rightarrow>
               (let s1 = AList.update (selection_key level) (VList (selection @ [revealed_team])) s
                in case map_of s1 ''remaining_reveals'' of
                     Some (VInt remaining) \<Rightarrow>
                       (NotEvaluated, Rerun,
                        AList.update ''remaining_reveals'' (VInt (remaining - 1)) s1)
                   | None \<Rightarrow> (NotEvaluated, Raise KeyError, s1)
                   | Some _ \<Rightarrow> (NotEvaluated, Raise TypeError, s1))
           | None \<Rightarrow> (NotEvaluated, Raise KeyError, s)
           | Some _ \<Rightarrow> (NotEvaluated, Raise TypeError, s)))"

text \<open>Lines 298 to 315: the loop \<^verbatim>\<open>for lvl in range(1, 11)\<close> that restarts the game. The
  first component is the exception that stopped the loop, if any.\<close>

fun reset_levels :: "database \<Rightarrow> nat \<Rightarrow> int \<Rightarrow> nat list \<Rightarrow> session_state \<Rightarrow> py_error option \<times> session_state" where
  "reset_levels db r starting_min_seasons [] s = (None, s)"
| "reset_levels db r starting_min_seasons (lvl # lvls) s =
     (let s1 = AList.delete (selection_key lvl) s;
          s2 = AList.delete (multiselect_key lvl) s1
      in if lvl = 1
         then (case random_choice r (load_players db starting_min_seasons) of
                 Inl e \<Rightarrow> (Some e, s2)
               | Inr p \<Rightarrow>
                   reset_levels db r starting_min_seasons lvls
                     (AList.update (player_key lvl) (VStr p) s2))
         else reset_levels db r starting_min_seasons lvls (AList.delete (player_key lvl) s2))"

text \<open>Lines 246 to 320: the comparison of the stored selection with the answers.\<close>

definition evaluate_selection :: "database \<Rightarrow> level_input \<Rightarrow> nat \<Rightarrow> int \<Rightarrow> string list \<Rightarrow> session_state \<Rightarrow> level_result" where
  "evaluate_selection db inp level starting_min_seasons level_answers s =
     (case map_of s (selection_key level) of
        None \<Rightarrow> (NotEvaluated, Raise KeyError, s)
      | Some (VList selection) \<Rightarrow>
          if length selection = length level_answers
          then if set selection = set level_answers
               then if level = 10 \<and> play_again_button inp
                    then (EvaluatedCorrect, Rerun, [])
                    else (EvaluatedCorrect, Return True, s)
               else (let wrong_answers = set selection - set level_answers;
                         correct_answers = set selection \<inter> set level_answers
                     in case reset_levels db (choice_restart inp) starting_min_seasons [1..<11] s of
                          (Some e, s') \<Rightarrow>
                            (EvaluatedIncorrect wrong_answers (card correct_answers), Raise e, s')
                        | (None, s') \<Rightarrow>
                            (EvaluatedIncorrect wrong_answers (card correct_answers), Rerun, s'))
          else (NotEvaluated, Return False, s)
      | Some _ \<Rightarrow> (NotEvaluated, Raise TypeError, s))"

definition render_level :: "database \<Rightarrow> level_input \<Rightarrow> nat \<Rightarrow> int \<Rightarrow> int \<Rightarrow> session_state \<Rightarrow> level_result" where
  "render_level db inp level min_seasons starting_min_seasons s =
     (case assign_player db (choice_player inp) level min_seasons s of
        Inl e \<Rightarrow> (NotEvaluated, Raise e, s)
      | Inr s1 \<Rightarrow>
          (case level_answers_of db level s1 of
             Inl e \<Rightarrow> (NotEvaluated, Raise e, s1)
           | Inr level_answers \<Rightarrow>
               (let s2 = AList.update (selection_key level) (VList (multiselect inp)) s1
                in case map_of s2 ''remaining_reveals'' of
                     None \<Rightarrow> (NotEvaluated, Raise KeyError, s2)
                   | Some (VInt remaining) \<Rightarrow>
                       if remaining > 0 \<and> reveal_button inp
                       then reveal_team (choice_reveal inp) level level_answers s2
                       else evaluate_selection db inp level starting_min_seasons level_answers s2
                   | Some _ \<Rightarrow> (NotEvaluated, Raise TypeError, s2))))"

text \<open>The part of a call that runs before line 246, for the calls that get there: the
  stored selection, the answers and the state at that line. \<open>None\<close> when the call ends
  earlier (an exception, or the reveal button's rerun).\<close>

definition before_evaluation :: "database \<Rightarrow> level_input \<Rightarrow> nat \<Rightarrow> int \<Rightarrow> session_state \<Rightarrow> (string list \<times> string list \<times> session_state) option" where
  "before_evaluation db inp level min_seasons s =
     (case assign_player db (choice_player inp) level min_seasons s of
        Inl e \<Rightarrow> None
      | Inr s1 \<Rightarrow>
          (case level_answers_of db level s1 of
             Inl e \<Rightarrow> None
           | Inr level_answers \<Rightarrow>
               (let s2 = AList.update (selection_key level) (VList (multiselect inp)) s1
                in case map_of s2 ''remaining_reveals'' of
                     Some (VInt remaining) \<Rightarrow>
                       if remaining > 0 \<and> reveal_button inp then None
                       else Some (multiselect inp, level_answers, s2)
                   | _ \<Rightarrow> None)))"

section \<open>The script: \<^verbatim>\<open>create_streamlit_app\<close>\<close>

record app_input =
  check_for_updates_button :: bool
  difficulty_selection :: string
  level_inputs :: "nat \<Rightarrow> level_input"

text \<open>Lines 450 to 455.\<close>

definition init_reveals :: "string \<Rightarrow> session_state \<Rightarrow> session_state" where
  "init_reveals difficulty s =
     (if \<not> has_key s ''remaining_reveals'' \<or> \<not> has_key s ''previous_difficulty''
         \<or> map_of s ''previous_difficulty'' \<noteq> Some (VStr difficulty)
      then AList.update ''previous_difficulty'' (VStr difficulty)
             (AList.update ''remaining_reveals''
                (VInt (case map_of reveals_per_difficulty difficulty of None \<Rightarrow> 0 | Some n \<Rightarrow> n)) s)
      else s)"

text \<open>Lines 465 to 471: \<^verbatim>\<open>pop(key, None)\<close> for the three keys of every level.\<close>

definition pop_levels :: "nat list \<Rightarrow> session_state \<Rightarrow> session_state" where
  "pop_levels lvls s =
     fold (\<lambda>lvl s. AList.delete (player_key lvl)
                     (AList.delete (multiselect_key lvl)
                        (AList.delete (selection_key lvl) s))) lvls s"

text \<open>Lines 480 to 489: the levels are rendered in order until one is not passed.\<close>

fun play_levels :: "database \<Rightarrow> (nat \<Rightarrow> level_input) \<Rightarrow> (nat \<times> int \<times> int) list \<Rightarrow> session_state \<Rightarrow> unit completion \<times> session_state" where
  "play_levels db inps [] s = (Return (), s)"
| "play_levels db inps ((level, min_seasons, start) # calls) s =
     (case render_level db (inps level) level min_seasons start s of
        (v, Return passed, s') \<Rightarrow>
          if passed then play_levels db inps calls s' else (Return (), s')
      | (v, Rerun, s') \<Rightarrow> (Rerun, s')
      | (v, Raise e, s') \<Rightarrow> (Raise e, s'))"

text \<open>The state-relevant part of the script. The header calls \<^verbatim>\<open>strftime\<close> on
  \<^verbatim>\<open>load_latest_game_date()\<close>, which is no date when the table has no row of the
  competition; that ends the pass with an exception (AttributeError for \<^verbatim>\<open>None\<close>) before
  the state is touched. The "Check for updates" button clears the caches and reruns.\<close>

definition create_streamlit_app :: "database \<Rightarrow> app_input \<Rightarrow> session_state \<Rightarrow> unit completion \<times> session_state" where
  "create_streamlit_app db inp s =
     (if load_latest_game_date db = None then (Raise AttributeError, s)
      else if check_for_updates_button inp then (Rerun, s)
      else
        (let difficulty = difficulty_selection inp;
             s1 = init_reveals difficulty s
         in if difficulty \<noteq> ''Select a difficulty level''
            then (let s2 = (if \<not> has_key s1 ''current_difficulty''
                            then AList.update ''current_difficulty'' (VStr difficulty) s1
                            else s1)
                  in if map_of s2 ''current_difficulty'' \<noteq> Some (VStr difficulty)
                     then (Rerun, AList.update ''current_difficulty'' (VStr difficulty)
                                    (pop_levels [1..<11] s2))
                     else (case level_calls difficulty of
                             Inl e \<Rightarrow> (Raise e, s2)
                           | Inr calls \<Rightarrow> play_levels db (level_inputs inp) calls s2))
            else (Return (), s1)))"

text \<open>A browsing session: the passes one after another from a given state, each with
  the table contents and the inputs of its time.\<close>

definition run_session :: "(database \<times> app_input) list \<Rightarrow> session_state \<Rightarrow> session_state" where
  "run_session passes s = foldl (\<lambda>s (db, inp). snd (create_streamlit_app db inp s)) s passes"

section \<open>Invariants of the session state\<close>

text \<open>The reveal counter, when present, is an integer that is not negative.\<close>

definition budget_nonneg :: "session_state \<Rightarrow> bool" where
  "budget_nonneg s =
     (case map_of s ''remaining_reveals'' of
        None \<Rightarrow> True
      | Some (VInt n) \<Rightarrow> 0 \<le> n
      | Some _ \<Rightarrow> False)"

text \<open>No two of the levels 1 to 10 hold the same player.\<close>

definition players_injective :: "session_state \<Rightarrow> bool" where
  "players_injective s =
     (\<forall>j\<in>{1..10}. \<forall>k\<in>{1..10}.
        has_key s (player_key j) \<and> map_of s (player_key j) = map_of s (player_key k) \<longrightarrow> j = k)"

section \<open>The tie-break as the specification words it\<close>

text \<open>The specification's reading of a tie between several most frequent values: "the
  first mode encountered" in the positional order of the rows. This definition follows
  the specification, not the source; it is compared with \<open>load_players_data\<close> below.\<close>

definition first_mode_encountered :: "int list \<Rightarrow> int option" where
  "first_mode_encountered xs = find (\<lambda>x. count_list xs x = max_count xs) xs"

section \<open>Example tables and inputs\<close>

text \<open>A player with two clubs whose rows carry different season counts, each once.\<close>

definition tie_db :: database where
  "tie_db =
     [\<lparr>player_name = ''P'', team_name = ''X'', competition_name = ''Champions League'',
       number_of_seasons = 5, game_date = 1\<rparr>,
      \<lparr>player_name = ''P'', team_name = ''Y'', competition_name = ''Champions League'',
       number_of_seasons = 3, game_date = 2\<rparr>]"

text \<open>The scenario of the specification: players A (clubs X and Y) and B (club X),
  twelve seasons each; difficulty Hard; level 1 holds player A; one reveal is left.\<close>

definition quiz_db :: database where
  "quiz_db =
     [\<lparr>player_name = ''A'', team_name = ''X'', competition_name = ''Champions League'',
       number_of_seasons = 12, game_date = 1\<rparr>,
      \<lparr>player_name = ''A'', team_name = ''Y'', competition_name = ''Champions League'',
       number_of_seasons = 12, game_date = 2\<rparr>,
      \<lparr>player_name = ''B'', team_name = ''X'', competition_name = ''Champions League'',
       number_of_seasons = 12, game_date = 3\<rparr>]"

definition hard_state :: session_state where
  "hard_state =
     [(''remaining_reveals'', VInt 1), (''previous_difficulty'', VStr ''Hard''),
      (''current_difficulty'', VStr ''Hard''), (''level_1_player'', VStr ''A'')]"

definition no_click :: level_input where
  "no_click = \<lparr>multiselect = [], reveal_button = False, play_again_button = False,
                choice_player = 0, choice_reveal = 0, choice_restart = 0\<rparr>"

text \<open>A table with a single player, seventeen seasons at one club, and the inputs of
  two passes on Easy: the first shows level 1, the second selects the right club.\<close>

definition one_player_db :: database where
  "one_player_db =
     [\<lparr>player_name = ''A'', team_name = ''X'', competition_name = ''Champions League'',
       number_of_seasons = 17, game_date = 1\<rparr>]"

definition easy_first :: app_input where
  "easy_first = \<lparr>check_for_updates_button = False, difficulty_selection = ''Easy'',
                  level_inputs = (\<lambda>level. no_click)\<rparr>"

definition easy_answer :: app_input where
  "easy_answer = \<lparr>check_for_updates_button = False, difficulty_selection = ''Easy'',
                   level_inputs = (\<lambda>level. if level = 1 then no_click\<lparr>multiselect := [''X'']\<rparr>
                                          else no_click)\<rparr>"

text \<open>The state of that session once level 1 is shown, with the stored selection.\<close>

definition easy_state :: "string list \<Rightarrow> session_state" where
  "easy_state sel =
     [(''remaining_reveals'', VInt 3), (''previous_difficulty'', VStr ''Easy''),
      (''current_difficulty'', VStr ''Easy''), (''level_1_player'', VStr ''A''),
      (''level_1_selection'', VList sel)]"

text \<open>The example scenario after a reveal that picked the club already selected, and
  the inputs of that reveal.\<close>

definition revealed_state :: session_state where
  "revealed_state =
     [(''remaining_reveals'', VInt 0), (''previous_difficulty'', VStr ''Hard''),
      (''current_difficulty'', VStr ''Hard''), (''level_1_player'', VStr ''A''),
      (''level_1_selection'', VList [''Y'', ''Y''])]"

definition reveal_click :: level_input where
  "reveal_click = no_click\<lparr>multiselect := [''Y''], reveal_button := True, choice_reveal := 1\<rparr>"

text \<open>Two passes over the example table on Hard: the first shows level 1, the second
  answers it, which brings up level 2.\<close>

definition hard_first :: app_input where
  "hard_first = \<lparr>check_for_updates_button = False, difficulty_selection = ''Hard'',
                  level_inputs = (\<lambda>level. no_click)\<rparr>"

definition hard_answer :: app_input where
  "hard_answer = \<lparr>check_for_updates_button = False, difficulty_selection = ''Hard'',
                   level_inputs = (\<lambda>level. if level = 1 then no_click\<lparr>multiselect := [''X'', ''Y'']\<rparr>
                                          else no_click)\<rparr>"

definition hard_level_1 :: "string list \<Rightarrow> session_state" where
  "hard_level_1 sel =
     [(''remaining_reveals'', VInt 1), (''previous_difficulty'', VStr ''Hard''),
      (''current_difficulty'', VStr ''Hard''), (''level_1_player'', VStr ''A''),
      (''level_1_selection'', VList sel)]"

definition hard_level_2 :: session_state where
  "hard_level_2 =
     hard_level_1 [''X'', ''Y''] @ [(''level_2_player'', VStr ''B''), (''level_2_selection'', VList [])]"



section \<open>Keys of the session state\<close>


lemma digit_char_inj: "d < 10 \<Longrightarrow> e < 10 \<Longrightarrow> digit_char d = digit_char e \<Longrightarrow> d = e"
  unfolding digit_char_def
  by (subst (asm) nth_eq_iff_index_eq) simp_all

lemma str_nat_nonempty: "str_nat n \<noteq> []"
  by (subst str_nat.simps) simp

lemma str_nat_inj: "str_nat n = str_nat m \<Longrightarrow> n = m"
proof (induction n arbitrary: m rule: str_nat.induct)
  case (1 n)
  show ?case
  proof (cases "n < 10")
    case True
    show ?thesis
    proof (cases "m < 10")
      case m: True
      from "1.prems" True m have "digit_char n = digit_char m"
        by (simp add: str_nat.simps[of n] str_nat.simps[of m])
      then show ?thesis using True m by (rule_tac digit_char_inj)
    next
      case m: False
      from "1.prems" True m have "[digit_char n] = str_nat (m div 10) @ [digit_char (m mod 10)]"
        by (simp add: str_nat.simps[of n] str_nat.simps[of m])
      then show ?thesis using str_nat_nonempty[of "m div 10"] by simp
    qed
  next
    case False
    show ?thesis
    proof (cases "m < 10")
      case m: True
      from "1.prems" False m have "str_nat (n div 10) @ [digit_char (n mod 10)] = [digit_char m]"
        by (simp add: str_nat.simps[of n] str_nat.simps[of m])
      then show ?thesis using str_nat_nonempty[of "n div 10"] by simp
    next
      case m: False
      from "1.prems" False m
      have eq: "str_nat (n div 10) @ [digit_char (n mod 10)] = str_nat (m div 10) @ [digit_char (m mod 10)]"
        by (simp add: str_nat.simps[of n] str_nat.simps[of m])
      then have "str_nat (n div 10) = str_nat (m div 10)" and d: "digit_char (n mod 10) = digit_char (m mod 10)"
        by simp_all
      with "1.IH" False have "n div 10 = m div 10" by blast
      moreover from d have "n mod 10 = m mod 10" by (rule_tac digit_char_inj) simp_all
      ultimately show ?thesis by (metis div_mult_mod_eq)
    qed
  qed
qed

lemma player_key_inj [simp]: "player_key j = player_key k \<longleftrightarrow> j = k"
  by (auto simp: player_key_def dest: str_nat_inj)

lemma selection_key_inj [simp]: "selection_key j = selection_key k \<longleftrightarrow> j = k"
  by (auto simp: selection_key_def dest: str_nat_inj)

lemma multiselect_key_inj [simp]: "multiselect_key j = multiselect_key k \<longleftrightarrow> j = k"
  by (auto simp: multiselect_key_def dest: str_nat_inj)

lemma last_player_key: "last (player_key j) = CHR ''r''"
  by (simp add: player_key_def)

lemma last_selection_key: "last (selection_key j) = CHR ''n''"
  by (simp add: selection_key_def)

lemma hd_keys: "hd (player_key j) = CHR ''l''" "hd (selection_key j) = CHR ''l''" "hd (multiselect_key j) = CHR ''m''"
  by (simp_all add: player_key_def selection_key_def multiselect_key_def)

lemma player_selection_key [simp]: "player_key j \<noteq> selection_key k" "selection_key k \<noteq> player_key j"
  using last_player_key[of j] last_selection_key[of k] by auto

lemma level_multiselect_key [simp]:
  "player_key j \<noteq> multiselect_key k" "multiselect_key k \<noteq> player_key j"
  "selection_key j \<noteq> multiselect_key k" "multiselect_key k \<noteq> selection_key j"
  using hd_keys[of j] hd_keys[of k] by auto

lemma fixed_keys [simp]:
  "player_key j \<noteq> ''remaining_reveals''" "selection_key j \<noteq> ''remaining_reveals''" "multiselect_key j \<noteq> ''remaining_reveals''"
  "player_key j \<noteq> ''previous_difficulty''" "selection_key j \<noteq> ''previous_difficulty''" "multiselect_key j \<noteq> ''previous_difficulty''"
  "player_key j \<noteq> ''current_difficulty''" "selection_key j \<noteq> ''current_difficulty''" "multiselect_key j \<noteq> ''current_difficulty''"
  "''remaining_reveals'' \<noteq> player_key j" "''remaining_reveals'' \<noteq> selection_key j" "''remaining_reveals'' \<noteq> multiselect_key j"
  "''previous_difficulty'' \<noteq> player_key j" "''previous_difficulty'' \<noteq> selection_key j" "''previous_difficulty'' \<noteq> multiselect_key j"
  "''current_difficulty'' \<noteq> player_key j" "''current_difficulty'' \<noteq> selection_key j" "''current_difficulty'' \<noteq> multiselect_key j"
  by (simp_all add: player_key_def selection_key_def multiselect_key_def)

lemma str_nat_values:
  "str_nat (Suc 0) = ''1''" "str_nat 2 = ''2''" "str_nat 3 = ''3''" "str_nat 10 = ''10''"
  by (simp_all add: str_nat.simps digit_char_def)

lemma level_1_keys:
  "player_key (Suc 0) = ''level_1_player''" "selection_key (Suc 0) = ''level_1_selection''"
  "multiselect_key (Suc 0) = ''multiselect_level_1''"
  by (simp_all add: player_key_def selection_key_def multiselect_key_def str_nat_values)

lemma level_2_keys:
  "player_key 2 = ''level_2_player''" "selection_key 2 = ''level_2_selection''"
  "multiselect_key 2 = ''multiselect_level_2''"
  by (simp_all add: player_key_def selection_key_def multiselect_key_def str_nat_values)

section \<open>The state after the assignment of a player\<close>

lemma has_key_update [simp]: "has_key (AList.update k v s) k' \<longleftrightarrow> k' = k \<or> has_key s k'"
  by (auto simp: has_key_def update_conv')

lemma has_key_delete [simp]: "has_key (AList.delete k s) k' \<longleftrightarrow> k' \<noteq> k \<and> has_key s k'"
  by (auto simp: has_key_def delete_conv')

lemma value_of_key: "map_of s k = Some v \<Longrightarrow> v \<in> set (state_values s)"
  by (force simp: state_values_def dest: map_of_SomeD)

lemma random_choice_Inr:
  "random_choice r xs = Inr x \<Longrightarrow> xs \<noteq> [] \<and> x = xs ! (r mod length xs) \<and> x \<in> set xs"
  by (auto simp: random_choice_def split: if_splits)

lemma random_choice_nonempty:
  "xs \<noteq> [] \<Longrightarrow> random_choice r xs = Inr (xs ! (r mod length xs))"
  by (simp add: random_choice_def)

lemma random_choice_empty: "random_choice r [] = Inl IndexError"
  by (simp add: random_choice_def)

lemma assign_player_present:
  assumes "has_key s (player_key level)"
  shows "\<exists>s1. assign_player db r level m s = Inr s1
    \<and> (\<forall>k. k \<noteq> selection_key level \<longrightarrow> map_of s1 k = map_of s k)
    \<and> has_key s1 (selection_key level)"
  using assms by (auto simp: assign_player_def Let_def update_conv' has_key_def)

lemma assign_player_absent:
  assumes "\<not> has_key s (player_key level)"
    and "random_choice r (exclude_used s (load_players db m)) = Inr p"
  shows "\<exists>s1. assign_player db r level m s = Inr s1
    \<and> map_of s1 (player_key level) = Some (VStr p)
    \<and> (\<forall>k. k \<noteq> selection_key level \<and> k \<noteq> player_key level \<longrightarrow> map_of s1 k = map_of s k)
    \<and> has_key s1 (selection_key level)"
  using assms by (auto simp: assign_player_def Let_def update_conv' has_key_def)

lemma assign_player_fails:
  assumes "\<not> has_key s (player_key level)"
    and "exclude_used s (load_players db m) = []"
  shows "assign_player db r level m s = Inl IndexError"
  using assms by (simp add: assign_player_def random_choice_empty)

lemma assign_player_Inr:
  assumes "assign_player db r level m s = Inr s1"
  shows "(\<forall>k. k \<noteq> selection_key level \<and> k \<noteq> player_key level \<longrightarrow> map_of s1 k = map_of s k)
    \<and> has_key s1 (selection_key level) \<and> has_key s1 (player_key level)
    \<and> (has_key s (player_key level) \<longrightarrow> map_of s1 (player_key level) = map_of s (player_key level))
    \<and> (\<not> has_key s (player_key level) \<longrightarrow>
          (\<exists>p. map_of s1 (player_key level) = Some (VStr p)
             \<and> random_choice r (exclude_used s (load_players db m)) = Inr p))"
proof (cases "has_key s (player_key level)")
  case True
  from assign_player_present[OF True, of db r m] assms show ?thesis
    using True by (auto simp: has_key_def)
next
  case False
  from assms False obtain p where p: "random_choice r (exclude_used s (load_players db m)) = Inr p"
    by (auto simp: assign_player_def Let_def split: sum.splits)
  from assign_player_absent[OF False p] assms show ?thesis
    using False p by (auto simp: has_key_def)
qed

lemma drawn_player_unused:
  assumes "random_choice r (exclude_used s pool) = Inr p"
  shows "p \<in> set pool \<and> VStr p \<notin> set (state_values s) \<and> (\<forall>k. map_of s k \<noteq> Some (VStr p))"
proof -
  from random_choice_Inr[OF assms] have "p \<in> set (exclude_used s pool)" by simp
  then have "p \<in> set pool" "VStr p \<notin> set (state_values s)" by (auto simp: exclude_used_def)
  then show ?thesis using value_of_key by blast
qed

section \<open>The restart loop\<close>

lemma reset_levels_frame:
  assumes "\<And>lvl. k \<noteq> selection_key lvl" "\<And>lvl. k \<noteq> multiselect_key lvl" "\<And>lvl. k \<noteq> player_key lvl"
  shows "map_of (snd (reset_levels db r start lvls s)) k = map_of s k"
  using assms
  by (induction lvls arbitrary: s) (auto simp: Let_def update_conv' delete_conv' split: sum.splits)

lemma reset_levels_raises:
  assumes "random_choice r (load_players db start) = Inl e"
  shows "map_of (snd (reset_levels db r start lvls s)) \<subseteq>\<^sub>m map_of s"
proof (induction lvls arbitrary: s)
  case Nil
  show ?case by simp
next
  case (Cons lvl lvls)
  have d: "map_of (AList.delete k t) \<subseteq>\<^sub>m map_of t" for k and t :: session_state
    by (auto simp: map_le_def delete_conv' dom_def)
  let ?s2 = "AList.delete (multiselect_key lvl) (AList.delete (selection_key lvl) s)"
  have s2: "map_of ?s2 \<subseteq>\<^sub>m map_of s"
    by (rule map_le_trans[OF d d])
  show ?case
  proof (cases "lvl = 1")
    case True
    then show ?thesis using assms s2 by (simp add: Let_def)
  next
    case False
    have "map_of (snd (reset_levels db r start lvls (AList.delete (player_key lvl) ?s2)))
            \<subseteq>\<^sub>m map_of (AList.delete (player_key lvl) ?s2)" by (rule Cons.IH)
    also have "\<dots> \<subseteq>\<^sub>m map_of ?s2" by (rule d)
    also note s2
    finally show ?thesis using False by (simp add: Let_def)
  qed
qed

lemma reset_levels_succeeds:
  assumes "random_choice r (load_players db start) = Inr p"
  shows "fst (reset_levels db r start lvls s) = None"
  using assms by (induction lvls arbitrary: s) (simp_all add: Let_def)

lemma reset_levels_stays_absent:
  assumes "k \<noteq> player_key 1" and "map_of s k = None"
  shows "map_of (snd (reset_levels db r start lvls s)) k = None"
  using assms(2)
proof (induction lvls arbitrary: s)
  case Nil
  then show ?case by simp
next
  case (Cons lvl lvls)
  let ?s2 = "AList.delete (multiselect_key lvl) (AList.delete (selection_key lvl) s)"
  have s2: "map_of ?s2 k = None" using Cons.prems by (simp add: delete_conv')
  show ?case
  proof (cases "lvl = 1")
    case True
    show ?thesis
    proof (cases "random_choice r (load_players db start)")
      case (Inl e)
      then show ?thesis using True s2 by (simp add: Let_def)
    next
      case (Inr p)
      have "map_of (AList.update (player_key 1) (VStr p) ?s2) k = None"
        using s2 assms(1) by (simp add: update_conv')
      from Cons.IH[OF this] show ?thesis using True Inr by (simp add: Let_def)
    qed
  next
    case False
    have "map_of (AList.delete (player_key lvl) ?s2) k = None"
      using s2 by (simp add: delete_conv')
    from Cons.IH[OF this] show ?thesis using False by (simp add: Let_def)
  qed
qed

lemma reset_levels_step:
  assumes "random_choice r (load_players db start) = Inr p"
  shows "reset_levels db r start (lvl # lvls) s =
     reset_levels db r start lvls
       (if lvl = 1
        then AList.update (player_key 1) (VStr p)
               (AList.delete (multiselect_key lvl) (AList.delete (selection_key lvl) s))
        else AList.delete (player_key lvl)
               (AList.delete (multiselect_key lvl) (AList.delete (selection_key lvl) s)))"
  using assms by (cases "lvl = 1") (simp_all add: Let_def)

lemma reset_levels_clears:
  assumes "random_choice r (load_players db start) = Inr p" and "lvl \<in> set lvls"
    and k: "k = selection_key lvl \<or> k = multiselect_key lvl \<or> (k = player_key lvl \<and> lvl \<noteq> 1)"
  shows "map_of (snd (reset_levels db r start lvls s)) k = None"
  using assms(2)
proof (induction lvls arbitrary: s)
  case Nil
  then show ?case by simp
next
  case (Cons l lvls)
  from k have k1: "k \<noteq> player_key 1" by auto
  show ?case
  proof (cases "lvl = l")
    case True
    show ?thesis unfolding reset_levels_step[OF assms(1)]
      by (rule reset_levels_stays_absent[OF k1])
        (use k True in \<open>auto simp: update_conv' delete_conv'\<close>)
  next
    case False
    with Cons.prems have "lvl \<in> set lvls" by simp
    then show ?thesis unfolding reset_levels_step[OF assms(1)] by (rule Cons.IH)
  qed
qed

lemma reset_levels_keeps_first_player:
  assumes "random_choice r (load_players db start) = Inr p"
    and "map_of s (player_key 1) = Some (VStr p)"
  shows "map_of (snd (reset_levels db r start lvls s)) (player_key 1) = Some (VStr p)"
  using assms(2)
proof (induction lvls arbitrary: s)
  case Nil
  then show ?case by simp
next
  case (Cons l lvls)
  show ?case unfolding reset_levels_step[OF assms(1)]
    by (rule Cons.IH) (use Cons.prems in \<open>simp add: update_conv' delete_conv'\<close>)
qed

lemma reset_levels_first_player:
  assumes "random_choice r (load_players db start) = Inr p" and "1 \<in> set lvls"
  shows "map_of (snd (reset_levels db r start lvls s)) (player_key 1) = Some (VStr p)"
  using assms(2)
proof (induction lvls arbitrary: s)
  case Nil
  then show ?case by simp
next
  case (Cons l lvls)
  show ?case
  proof (cases "l = 1")
    case True
    show ?thesis unfolding reset_levels_step[OF assms(1)]
      by (rule reset_levels_keeps_first_player[OF assms(1)]) (simp add: True update_conv')
  next
    case False
    with Cons.prems have "1 \<in> set lvls" by simp
    then show ?thesis unfolding reset_levels_step[OF assms(1)] by (rule Cons.IH)
  qed
qed

lemma reset_levels_empty_pool:
  assumes "load_players db start = []"
  shows "fst (reset_levels db r start [1..<11] s) = Some IndexError"
proof -
  have "[1..<11::nat] = 1 # [Suc 1..<11]" by (rule upt_conv_Cons) simp
  then have "reset_levels db r start [1..<11] s = reset_levels db r start (1 # [Suc 1..<11]) s"
    by (rule arg_cong)
  then show ?thesis using assms by (simp only: reset_levels.simps Let_def random_choice_empty) simp
qed

section \<open>Evaluation of a selection\<close>

lemma before_evaluation_Some:
  assumes "before_evaluation db inp level m s = Some (selection, level_answers, s2)"
  shows "selection = multiselect inp"
    and "map_of s2 (selection_key level) = Some (VList selection)"
    and "map_of s2 ''remaining_reveals'' = map_of s ''remaining_reveals''"
    and "render_level db inp level m start s = evaluate_selection db inp level start level_answers s2"
    and "\<exists>s1. assign_player db (choice_player inp) level m s = Inr s1
            \<and> level_answers_of db level s1 = Inr level_answers
            \<and> s2 = AList.update (selection_key level) (VList (multiselect inp)) s1"
proof -
  from assms obtain s1 where s1: "assign_player db (choice_player inp) level m s = Inr s1"
    by (auto simp: before_evaluation_def split: sum.splits)
  from assms s1 have la: "level_answers_of db level s1 = Inr level_answers"
    by (auto simp: before_evaluation_def Let_def split: sum.splits option.splits val.splits if_splits)
  let ?s2 = "AList.update (selection_key level) (VList (multiselect inp)) s1"
  from assms s1 la obtain n where n: "map_of ?s2 ''remaining_reveals'' = Some (VInt n)"
    "\<not> (n > 0 \<and> reveal_button inp)"
    and eq: "selection = multiselect inp" "s2 = ?s2"
    by (auto simp: before_evaluation_def Let_def split: option.splits val.splits if_splits)
  show "selection = multiselect inp" by (rule eq)
  show "map_of s2 (selection_key level) = Some (VList selection)"
    using eq by (simp add: update_conv')
  show "map_of s2 ''remaining_reveals'' = map_of s ''remaining_reveals''"
    using eq assign_player_Inr[OF s1] by (simp add: update_conv')
  show "render_level db inp level m start s = evaluate_selection db inp level start level_answers s2"
    using s1 la n eq by (auto simp: render_level_def Let_def)
  show "\<exists>s1. assign_player db (choice_player inp) level m s = Inr s1
            \<and> level_answers_of db level s1 = Inr level_answers
            \<and> s2 = AList.update (selection_key level) (VList (multiselect inp)) s1"
    using s1 la eq by blast
qed

lemma before_evaluation_None:
  assumes "before_evaluation db inp level m s = None"
  shows "fst (render_level db inp level m start s) = NotEvaluated"
  using assms
  by (auto simp: before_evaluation_def render_level_def reveal_team_def Let_def
      split: sum.splits option.splits val.splits if_splits)


lemma evaluate_selection_mismatch:
  assumes "map_of s (selection_key level) = Some (VList selection)"
    and "length selection \<noteq> length level_answers"
  shows "evaluate_selection db inp level start level_answers s = (NotEvaluated, Return False, s)"
  using assms by (simp add: evaluate_selection_def)

lemma evaluate_selection_correct:
  assumes "map_of s (selection_key level) = Some (VList selection)"
    and "length selection = length level_answers"
    and "set selection = set level_answers"
  shows "evaluate_selection db inp level start level_answers s =
           (if level = 10 \<and> play_again_button inp then (EvaluatedCorrect, Rerun, [])
            else (EvaluatedCorrect, Return True, s))"
  using assms by (simp add: evaluate_selection_def)

lemma evaluate_selection_incorrect:
  assumes "map_of s (selection_key level) = Some (VList selection)"
    and "length selection = length level_answers"
    and "set selection \<noteq> set level_answers"
  shows "evaluate_selection db inp level start level_answers s =
           (EvaluatedIncorrect (set selection - set level_answers)
              (card (set selection \<inter> set level_answers)),
            (case fst (reset_levels db (choice_restart inp) start [1..<11] s) of
               Some e \<Rightarrow> Raise e | None \<Rightarrow> Rerun),
            snd (reset_levels db (choice_restart inp) start [1..<11] s))"
  using assms
  by (cases "reset_levels db (choice_restart inp) start [1..<11] s")
     (simp add: evaluate_selection_def Let_def split: option.splits)

section \<open>The example scenario\<close>

lemma quiz_players: "load_players quiz_db 10 = [''A'', ''B'']"
  by (simp add: load_players_def quiz_db_def champions_league_def)

lemma quiz_player_A: "load_players_data quiz_db ''A'' = Inr ([''X'', ''Y''], 12)"
  by (simp add: load_players_data_def player_rows_def quiz_db_def champions_league_def
      series_mode_def max_count_def iat0_def)

lemma quiz_assign: "assign_player quiz_db r (Suc 0) 10 hard_state = Inr (hard_state @ [(''level_1_selection'', VList [])])"
  by (simp add: assign_player_def hard_state_def level_1_keys has_key_def)

lemma quiz_before:
  "before_evaluation quiz_db (no_click\<lparr>multiselect := sel\<rparr>) (Suc 0) 10 hard_state =
     Some (sel, [''X'', ''Y''], hard_state @ [(''level_1_selection'', VList sel)])"
  by (simp add: before_evaluation_def quiz_assign level_answers_of_def no_click_def)
     (simp add: hard_state_def level_1_keys quiz_player_A)

lemma quiz_level_answers:
  "level_answers_of quiz_db (Suc 0) (hard_state @ [(''level_1_selection'', VList [])]) = Inr [''X'', ''Y'']"
  by (simp add: level_answers_of_def hard_state_def level_1_keys quiz_player_A)




section \<open>Verdicts\<close>






section \<open>The reset after a wrong answer\<close>

text \<open>
  Claim C3. When a selection of the right length is wrong and the pool at the starting
  threshold is not empty, the call ends in a rerun with the run reset: no level from 1 to
  10 has a stored selection, level 1 holds the player that \<open>random.choice\<close> picks from the
  whole pool \<open>load_players db start\<close> (no exclusion), no level from 2 to 10 has a player,
  and the reveal counter is the one the call started with.
\<close>

theorem incorrect_reset:
  assumes "before_evaluation db inp level m s = Some (selection, level_answers, s2)"
    and "length selection = length level_answers"
    and "set selection \<noteq> set level_answers"
    and "load_players db start \<noteq> []"
  shows "\<exists>wrong n s'.
      render_level db inp level m start s = (EvaluatedIncorrect wrong n, Rerun, s')
    \<and> (\<forall>lvl\<in>{1..10}. \<not> has_key s' (selection_key lvl))
    \<and> map_of s' (player_key 1) =
         Some (VStr (load_players db start ! (choice_restart inp mod length (load_players db start))))
    \<and> (\<forall>lvl\<in>{2..10}. \<not> has_key s' (player_key lvl))
    \<and> map_of s' ''remaining_reveals'' = map_of s ''remaining_reveals''"
proof -
  note pre = before_evaluation_Some[OF assms(1)]
  let ?p = "load_players db start ! (choice_restart inp mod length (load_players db start))"
  let ?res = "reset_levels db (choice_restart inp) start [1..<11] s2"
  have ch: "random_choice (choice_restart inp) (load_players db start) = Inr ?p"
    using assms(4) by (rule random_choice_nonempty)
  have ok: "fst ?res = None" by (rule reset_levels_succeeds[OF ch])
  have run: "render_level db inp level m start s =
      (EvaluatedIncorrect (set selection - set level_answers)
         (card (set selection \<inter> set level_answers)), Rerun, snd ?res)"
    using evaluate_selection_incorrect[OF pre(2) assms(2,3)] ok by (simp add: pre(4))
  have sel: "\<not> has_key (snd ?res) (selection_key lvl)" if "lvl \<in> {1..10}" for lvl
  proof -
    from that have "lvl \<in> set [1..<11]" by auto
    from reset_levels_clears[OF ch this] show ?thesis by (simp add: has_key_def)
  qed
  have pl: "\<not> has_key (snd ?res) (player_key lvl)" if "lvl \<in> {2..10}" for lvl
  proof -
    from that have "lvl \<in> set [1..<11]" "lvl \<noteq> 1" by auto
    from reset_levels_clears[OF ch this(1), of "player_key lvl"] this(2)
    show ?thesis by (simp add: has_key_def)
  qed
  have p1: "map_of (snd ?res) (player_key 1) = Some (VStr ?p)"
    by (rule reset_levels_first_player[OF ch]) simp
  have rr: "map_of (snd ?res) ''remaining_reveals'' = map_of s ''remaining_reveals''"
    using reset_levels_frame[of "''remaining_reveals''" db "choice_restart inp" start "[1..<11]" s2]
    by (simp add: pre(3))
  from run sel pl p1 rr show ?thesis by blast
qed

theorem incorrect_reset_witness:
  "before_evaluation quiz_db (no_click\<lparr>multiselect := [''X'', ''Z''], choice_restart := 1\<rparr>) 1 10 hard_state =
     Some ([''X'', ''Z''], [''X'', ''Y''], hard_state @ [(''level_1_selection'', VList [''X'', ''Z''])])
   \<and> length [''X'', ''Z''] = length [''X'', ''Y'']
   \<and> set [''X'', ''Z''] \<noteq> set [''X'', ''Y'']
   \<and> load_players quiz_db 10 = [''A'', ''B'']
   \<and> (\<exists>wrong n s'.
      render_level quiz_db (no_click\<lparr>multiselect := [''X'', ''Z''], choice_restart := 1\<rparr>) 1 10 10 hard_state
        = (EvaluatedIncorrect wrong n, Rerun, s')
    \<and> (\<forall>lvl\<in>{1..10}. \<not> has_key s' (selection_key lvl))
    \<and> map_of s' (player_key 1) = Some (VStr ''B'')
    \<and> (\<forall>lvl\<in>{2..10}. \<not> has_key s' (player_key lvl))
    \<and> map_of s' ''remaining_reveals'' = Some (VInt 1))"
proof -
  let ?inp = "no_click\<lparr>multiselect := [''X'', ''Z''], choice_restart := 1\<rparr>"
  have "before_evaluation quiz_db ?inp (Suc 0) 10 hard_state =
     Some ([''X'', ''Z''], [''X'', ''Y''], hard_state @ [(''level_1_selection'', VList [''X'', ''Z''])])"
    by (simp add: before_evaluation_def quiz_assign level_answers_of_def no_click_def)
       (simp add: hard_state_def level_1_keys quiz_player_A)
  then have pre: "before_evaluation quiz_db ?inp 1 10 hard_state =
     Some ([''X'', ''Z''], [''X'', ''Y''], hard_state @ [(''level_1_selection'', VList [''X'', ''Z''])])"
    unfolding One_nat_def .
  have len: "length [''X'', ''Z''] = length [''X'', ''Y'']" by simp
  have "''Z'' \<in> set [''X'', ''Z'']" and "''Z'' \<notin> set [''X'', ''Y'']" by simp_all
  then have ne: "set [''X'', ''Z''] \<noteq> set [''X'', ''Y'']" by metis
  have pool: "load_players quiz_db 10 \<noteq> []" by (simp add: quiz_players)
  have rr: "map_of hard_state ''remaining_reveals'' = Some (VInt 1)" by (simp add: hard_state_def)
  have drawn: "load_players quiz_db 10 ! (choice_restart ?inp mod length (load_players quiz_db 10)) = ''B''"
    by (simp add: quiz_players no_click_def)
  from incorrect_reset[OF pre len ne pool, unfolded drawn rr] pre len ne quiz_players
  show ?thesis by blast
qed

section \<open>The season count of a player\<close>

lemma max_count_eq: "max_count xs = Max (insert 0 (count_list xs ` set xs))"
proof -
  have "fold max (map (count_list xs) xs) 0 = Max (set (0 # map (count_list xs) xs))"
    by (rule Max.set_eq_fold[symmetric])
  then show ?thesis by (simp add: max_count_def)
qed

lemma count_le_max_count: "count_list xs x \<le> max_count xs"
proof (cases "x \<in> set xs")
  case True
  then show ?thesis unfolding max_count_eq by (intro Max_ge) auto
next
  case False
  then show ?thesis by (simp add: count_list_0_iff)
qed

lemma max_count_attained:
  assumes "xs \<noteq> []"
  shows "\<exists>x\<in>set xs. count_list xs x = max_count xs"
proof -
  let ?C = "insert 0 (count_list xs ` set xs)"
  have "Max ?C \<in> ?C" by (rule Max_in) auto
  moreover have "Max ?C \<noteq> 0"
  proof -
    from assms obtain y where y: "y \<in> set xs" by (cases xs) auto
    then have "count_list xs y \<noteq> 0" by (simp add: count_list_0_iff)
    then have "0 < count_list xs y" by simp
    moreover have "count_list xs y \<le> Max ?C" using y by (intro Max_ge) auto
    ultimately show ?thesis by simp
  qed
  ultimately show ?thesis unfolding max_count_eq by auto
qed

lemma set_series_mode: "set (series_mode xs) = {x \<in> set xs. count_list xs x = max_count xs}"
  by (auto simp: series_mode_def)

lemma sorted_series_mode: "sorted (series_mode xs)"
  by (simp add: series_mode_def)

lemma iat0_series_mode:
  assumes "xs \<noteq> []"
  shows "\<exists>n. iat0 (series_mode xs) = Inr n \<and> n \<in> set xs \<and> count_list xs n = max_count xs
           \<and> (\<forall>m\<in>set xs. count_list xs m = max_count xs \<longrightarrow> n \<le> m)"
proof -
  from max_count_attained[OF assms] have "set (series_mode xs) \<noteq> {}"
    by (auto simp: set_series_mode)
  then obtain n ms where nm: "series_mode xs = n # ms" by (cases "series_mode xs") auto
  have n: "n \<in> {x \<in> set xs. count_list xs x = max_count xs}"
    using nm set_series_mode[of xs] by (metis list.set_intros(1))
  have "\<forall>m\<in>set (n # ms). n \<le> m" using sorted_series_mode[of xs] nm by auto
  then have "\<forall>m\<in>{x \<in> set xs. count_list xs x = max_count xs}. n \<le> m"
    using nm set_series_mode[of xs] by metis
  with n nm show ?thesis by (auto simp: iat0_def)
qed

lemma iat0_series_mode_empty: "iat0 (series_mode []) = Inl IndexError"
  by (simp add: iat0_def series_mode_def)

lemma load_players_data_no_rows:
  "player_rows db player = [] \<Longrightarrow> load_players_data db player = Inl IndexError"
  by (simp add: load_players_data_def iat0_series_mode_empty)

text \<open>The list of clubs has no duplicate when no club of the player is recorded with
  two season counts; its length is then the number of clubs.\<close>

lemma load_players_data_distinct:
  assumes "load_players_data db player = Inr (teams, n)"
    and "inj_on fst (set (player_rows db player))"
  shows "distinct teams \<and> length teams = card (set teams)"
proof -
  from assms(1) have teams: "teams = sort (map fst (player_rows db player))"
    by (auto simp: load_players_data_def Let_def split: sum.splits)
  have "distinct (player_rows db player)" by (simp add: player_rows_def)
  with assms(2) have "distinct (map fst (player_rows db player))" by (simp add: distinct_map)
  then have "distinct teams" unfolding teams by simp
  then show ?thesis by (simp add: distinct_card)
qed

lemma tie_rows: "player_rows tie_db ''P'' = [(''X'', 5), (''Y'', 3)]"
  by (simp add: player_rows_def tie_db_def champions_league_def)

text \<open>
  Claim C7, as amended. For a player with at least one row, \<open>load_players_data\<close> returns
  the player's clubs and a season count that is a mode of the \<open>number_of_seasons\<close>
  column of the queried rows (no value occurs more often); among several most frequent
  values it is the smallest one, whatever the order of the rows.
\<close>

theorem load_players_data_mode:
  assumes "player_rows db player \<noteq> []"
  shows "\<exists>teams n. load_players_data db player = Inr (teams, n)
     \<and> set teams = fst ` set (player_rows db player)
     \<and> n \<in> snd ` set (player_rows db player)
     \<and> (\<forall>x. count_list (map snd (player_rows db player)) x
               \<le> count_list (map snd (player_rows db player)) n)
     \<and> (\<forall>m. (\<forall>x. count_list (map snd (player_rows db player)) x
                     \<le> count_list (map snd (player_rows db player)) m)
             \<longrightarrow> n \<le> m)"
proof -
  let ?col = "map snd (player_rows db player)"
  from assms have "?col \<noteq> []" by simp
  from iat0_series_mode[OF this] obtain n where n: "iat0 (series_mode ?col) = Inr n"
    "n \<in> set ?col" "count_list ?col n = max_count ?col"
    "\<forall>m\<in>set ?col. count_list ?col m = max_count ?col \<longrightarrow> n \<le> m" by blast
  have least: "n \<le> m" if m: "\<forall>x. count_list ?col x \<le> count_list ?col m" for m
  proof -
    from m have "count_list ?col n \<le> count_list ?col m" by blast
    with n(3) count_le_max_count[of ?col m] have c: "count_list ?col m = max_count ?col" by simp
    moreover have "m \<in> set ?col"
    proof (rule ccontr)
      assume "m \<notin> set ?col"
      then have "count_list ?col m = 0" by (simp add: count_list_0_iff)
      with c n(3) have "count_list ?col n = 0" by simp
      with n(2) show False by (simp add: count_list_0_iff)
    qed
    ultimately show ?thesis using n(4) by blast
  qed
  have "load_players_data db player = Inr (sort (map fst (player_rows db player)), n)"
    using n(1) by (simp add: load_players_data_def)
  moreover have "\<forall>x. count_list ?col x \<le> count_list ?col n"
    using n(3) count_le_max_count[of ?col] by simp
  ultimately show ?thesis using n(2) least by auto
qed

theorem load_players_data_mode_witness:
  "player_rows tie_db ''P'' \<noteq> []
   \<and> (\<exists>teams n. load_players_data tie_db ''P'' = Inr (teams, n)
     \<and> set teams = fst ` set (player_rows tie_db ''P'')
     \<and> n \<in> snd ` set (player_rows tie_db ''P'')
     \<and> (\<forall>x. count_list (map snd (player_rows tie_db ''P'')) x
               \<le> count_list (map snd (player_rows tie_db ''P'')) n)
     \<and> (\<forall>m. (\<forall>x. count_list (map snd (player_rows tie_db ''P'')) x
                     \<le> count_list (map snd (player_rows tie_db ''P'')) m)
             \<longrightarrow> n \<le> m))"
proof -
  have rows: "player_rows tie_db ''P'' \<noteq> []" by (simp add: tie_rows)
  from load_players_data_mode[OF rows] rows show ?thesis by blast
qed

text \<open>The claim as written breaks a tie by the first mode met in the rows' order. In
  \<open>tie_db\<close> the rows come in the order 5, 3, both values occur once, the first mode met
  is 5, and the function returns 3.\<close>

theorem load_players_data_mode_counterexample:
  "player_rows tie_db ''P'' = [(''X'', 5), (''Y'', 3)]
   \<and> first_mode_encountered (map snd (player_rows tie_db ''P'')) = Some 5
   \<and> load_players_data tie_db ''P'' = Inr ([''X'', ''Y''], 3)"
  by (simp add: tie_rows first_mode_encountered_def max_count_def load_players_data_def
      series_mode_def iat0_def)

section \<open>The reveal button\<close>

lemma level_answers_of_nonempty:
  assumes "level_answers_of db level s = Inr level_answers"
  shows "level_answers \<noteq> []"
proof -
  from assms obtain p seasons where "load_players_data db p = Inr (level_answers, seasons)"
    by (auto simp: level_answers_of_def split: option.splits val.splits sum.splits)
  then have "player_rows db p \<noteq> []" and "level_answers = sort (map fst (player_rows db p))"
    using load_players_data_no_rows[of db p]
    by (auto simp: load_players_data_def Let_def split: sum.splits)
  then have "length level_answers \<noteq> 0" by simp
  then show ?thesis by blast
qed

lemma reveal_effect:
  assumes s1: "assign_player db (choice_player inp) level m s = Inr s1"
    and la: "level_answers_of db level s1 = Inr level_answers"
    and rr: "map_of s ''remaining_reveals'' = Some (VInt n)"
    and pos: "0 < n" and click: "reveal_button inp"
  shows "\<exists>s'. render_level db inp level m start s = (NotEvaluated, Rerun, s')
    \<and> map_of s' (selection_key level) =
         Some (VList (multiselect inp @ [level_answers ! (choice_reveal inp mod length level_answers)]))
    \<and> level_answers ! (choice_reveal inp mod length level_answers) \<in> set level_answers
    \<and> map_of s' ''remaining_reveals'' = Some (VInt (n - 1))
    \<and> (\<forall>k. k \<noteq> selection_key level \<and> k \<noteq> ''remaining_reveals'' \<longrightarrow> map_of s' k = map_of s1 k)"
proof -
  let ?s2 = "AList.update (selection_key level) (VList (multiselect inp)) s1"
  let ?t = "level_answers ! (choice_reveal inp mod length level_answers)"
  let ?s3 = "AList.update (selection_key level) (VList (multiselect inp @ [?t])) ?s2"
  let ?s4 = "AList.update ''remaining_reveals'' (VInt (n - 1)) ?s3"
  have ne: "level_answers \<noteq> []" by (rule level_answers_of_nonempty[OF la])
  have rr1: "map_of s1 ''remaining_reveals'' = Some (VInt n)"
    using assign_player_Inr[OF s1] rr by simp
  have rr2: "map_of ?s2 ''remaining_reveals'' = Some (VInt n)"
    using rr1 by (simp add: update_conv')
  have rr3: "map_of ?s3 ''remaining_reveals'' = Some (VInt n)"
    using rr1 by (simp add: update_conv')
  have sel2: "map_of ?s2 (selection_key level) = Some (VList (multiselect inp))"
    by (simp add: update_conv')
  have rt: "reveal_team (choice_reveal inp) level level_answers ?s2 = (NotEvaluated, Rerun, ?s4)"
    unfolding reveal_team_def random_choice_nonempty[OF ne]
    by (simp only: sum.case sel2 option.case val.case Let_def rr3)
  have "render_level db inp level m start s = (NotEvaluated, Rerun, ?s4)"
    unfolding render_level_def using pos click
    by (simp only: s1 la sum.case Let_def rr2 option.case val.case rt simp_thms if_True)
  moreover have "?t \<in> set level_answers" using ne by simp
  moreover have "map_of ?s4 (selection_key level) = Some (VList (multiselect inp @ [?t]))"
    by (simp add: update_conv')
  moreover have "map_of ?s4 ''remaining_reveals'' = Some (VInt (n - 1))"
    by (simp add: update_conv')
  moreover have "\<forall>k. k \<noteq> selection_key level \<and> k \<noteq> ''remaining_reveals'' \<longrightarrow> map_of ?s4 k = map_of s1 k"
    by (simp add: update_conv')
  ultimately show ?thesis by blast
qed

lemma evaluate_selection_reveal_button:
  "evaluate_selection db (inp\<lparr>reveal_button := b\<rparr>) level start level_answers s =
   evaluate_selection db inp level start level_answers s"
proof -
  have "choice_restart (inp\<lparr>reveal_button := b\<rparr>) = choice_restart inp"
    and "play_again_button (inp\<lparr>reveal_button := b\<rparr>) = play_again_button inp" by simp_all
  then show ?thesis unfolding evaluate_selection_def by (simp only:)
qed

lemma reveal_ignored:
  assumes rr: "map_of s ''remaining_reveals'' = Some (VInt n)" and "n \<le> 0"
  shows "render_level db (inp\<lparr>reveal_button := True\<rparr>) level m start s =
         render_level db (inp\<lparr>reveal_button := False\<rparr>) level m start s"
proof (cases "assign_player db (choice_player inp) level m s")
  case (Inl e)
  then show ?thesis by (simp add: render_level_def)
next
  case (Inr s1)
  have rr2: "map_of (AList.update (selection_key level) (VList (multiselect inp)) s1) ''remaining_reveals''
      = Some (VInt n)"
    using assign_player_Inr[OF Inr] rr by (simp add: update_conv')
  show ?thesis
    using Inr rr2 assms(2)
    by (cases "level_answers_of db level s1")
       (simp_all add: render_level_def Let_def evaluate_selection_reveal_button)
qed

section \<open>The reveal counter is never negative\<close>

lemma budget_nonneg_cong:
  "map_of s' ''remaining_reveals'' = map_of s ''remaining_reveals'' \<Longrightarrow> budget_nonneg s' = budget_nonneg s"
  by (simp add: budget_nonneg_def)

lemma budget_nonneg_absent:
  "map_of s ''remaining_reveals'' = None \<Longrightarrow> budget_nonneg s"
  by (simp add: budget_nonneg_def)

lemma budget_nonneg_submap:
  assumes "map_of s' \<subseteq>\<^sub>m map_of s" and "budget_nonneg s"
  shows "budget_nonneg s'"
proof (cases "map_of s' ''remaining_reveals''")
  case None
  then show ?thesis by (rule budget_nonneg_absent)
next
  case (Some v)
  with assms(1) have "map_of s ''remaining_reveals'' = map_of s' ''remaining_reveals''"
    by (auto simp: map_le_def dom_def)
  then show ?thesis using assms(2) budget_nonneg_cong by metis
qed

lemma reset_levels_budget:
  "map_of (snd (reset_levels db r start lvls s)) ''remaining_reveals'' = map_of s ''remaining_reveals''"
  by (rule reset_levels_frame) simp_all

lemma evaluate_selection_state:
  "snd (snd (evaluate_selection db inp level start level_answers s)) = s
   \<or> snd (snd (evaluate_selection db inp level start level_answers s)) = []
   \<or> snd (snd (evaluate_selection db inp level start level_answers s)) =
        snd (reset_levels db (choice_restart inp) start [1..<11] s)"
proof -
  define res where "res = reset_levels db (choice_restart inp) start [1..<11] s"
  show ?thesis
    unfolding evaluate_selection_def res_def[symmetric] Let_def
    by (cases res) (auto split: option.splits val.splits)
qed

lemma evaluate_selection_budget:
  assumes "budget_nonneg s"
  shows "budget_nonneg (snd (snd (evaluate_selection db inp level start level_answers s)))"
proof -
  let ?res = "reset_levels db (choice_restart inp) start [1..<11] s"
  have r: "budget_nonneg (snd ?res)"
    using assms budget_nonneg_cong[OF reset_levels_budget] by blast
  have e: "budget_nonneg []" by (simp add: budget_nonneg_def)
  from evaluate_selection_state[of db inp level start level_answers s] show ?thesis
  proof (elim disjE)
    assume eq: "snd (snd (evaluate_selection db inp level start level_answers s)) = s"
    show ?thesis unfolding eq by (rule assms)
  next
    assume eq: "snd (snd (evaluate_selection db inp level start level_answers s)) = []"
    show ?thesis unfolding eq by (rule e)
  next
    assume eq: "snd (snd (evaluate_selection db inp level start level_answers s)) = snd ?res"
    show ?thesis unfolding eq by (rule r)
  qed
qed

lemma reveal_team_budget:
  assumes "map_of s ''remaining_reveals'' = Some (VInt n)" and "0 < n"
  shows "budget_nonneg (snd (snd (reveal_team r level level_answers s)))"
  using assms
  by (auto simp: reveal_team_def Let_def budget_nonneg_def update_conv'
      split: sum.splits option.splits val.splits)

lemma render_level_budget:
  assumes "budget_nonneg s"
  shows "budget_nonneg (snd (snd (render_level db inp level m start s)))"
proof (cases "assign_player db (choice_player inp) level m s")
  case (Inl e)
  then show ?thesis using assms by (simp add: render_level_def)
next
  case (Inr s1)
  let ?s2 = "AList.update (selection_key level) (VList (multiselect inp)) s1"
  have rr1: "map_of s1 ''remaining_reveals'' = map_of s ''remaining_reveals''"
    using assign_player_Inr[OF Inr] by simp
  then have b1: "budget_nonneg s1" using assms budget_nonneg_cong by blast
  have rr2: "map_of ?s2 ''remaining_reveals'' = map_of s ''remaining_reveals''"
    using rr1 by (simp add: update_conv')
  then have b2: "budget_nonneg ?s2" using assms budget_nonneg_cong by blast
  show ?thesis
  proof (cases "level_answers_of db level s1")
    case (Inl e)
    then show ?thesis using Inr b1 by (simp add: render_level_def)
  next
    case la: (Inr level_answers)
    show ?thesis
    proof (cases "map_of ?s2 ''remaining_reveals''")
      case None
      then show ?thesis using Inr la b2 by (simp add: render_level_def Let_def)
    next
      case (Some v)
      show ?thesis
      proof (cases v)
        case (VInt n)
        show ?thesis
        proof (cases "0 < n \<and> reveal_button inp")
          case True
          then have "render_level db inp level m start s =
              reveal_team (choice_reveal inp) level level_answers ?s2"
            using Inr la Some VInt by (simp add: render_level_def Let_def)
          then show ?thesis using reveal_team_budget[of ?s2 n] Some VInt True by simp
        next
          case False
          then have "render_level db inp level m start s =
              evaluate_selection db inp level start level_answers ?s2"
            using Inr la Some VInt by (auto simp: render_level_def Let_def)
          then show ?thesis using evaluate_selection_budget[OF b2] by simp
        qed
      next
        case (VStr x)
        then show ?thesis using Inr la Some b2 by (simp add: render_level_def Let_def)
      next
        case (VList x)
        then show ?thesis using Inr la Some b2 by (simp add: render_level_def Let_def)
      qed
    qed
  qed
qed

lemma play_levels_budget:
  assumes "budget_nonneg s"
  shows "budget_nonneg (snd (play_levels db inps calls s))"
  using assms
proof (induction calls arbitrary: s)
  case Nil
  then show ?case by simp
next
  case (Cons call calls)
  obtain level m start where call: "call = (level, m, start)" by (cases call) auto
  obtain v c s' where r: "render_level db (inps level) level m start s = (v, c, s')"
    by (cases "render_level db (inps level) level m start s") auto
  have s': "budget_nonneg s'" using render_level_budget[OF Cons.prems, of db "inps level" level m start] r by simp
  show ?case
  proof (cases c)
    case (Return passed)
    then show ?thesis using call r s' Cons.IH[OF s'] by simp
  next
    case Rerun
    then show ?thesis using call r s' by simp
  next
    case (Raise e)
    then show ?thesis using call r s' by simp
  qed
qed

lemma reveals_per_difficulty_nonneg:
  "0 \<le> (case map_of reveals_per_difficulty d of None \<Rightarrow> 0 | Some n \<Rightarrow> n)"
proof (cases "map_of reveals_per_difficulty d")
  case None
  then show ?thesis by simp
next
  case (Some n)
  then have "(d, n) \<in> set reveals_per_difficulty" by (rule map_of_SomeD)
  then have "0 \<le> n" by (auto simp: reveals_per_difficulty_def)
  with Some show ?thesis by simp
qed

lemma init_reveals_budget:
  assumes "budget_nonneg s"
  shows "budget_nonneg (init_reveals d s)"
proof -
  define n where "n = (case map_of reveals_per_difficulty d of None \<Rightarrow> 0 | Some n \<Rightarrow> n)"
  have n: "0 \<le> n" unfolding n_def by (rule reveals_per_difficulty_nonneg)
  have "budget_nonneg (AList.update ''previous_difficulty'' (VStr d)
          (AList.update ''remaining_reveals'' (VInt n) s))"
    using n by (simp add: budget_nonneg_def update_conv')
  then show ?thesis using assms unfolding init_reveals_def n_def[symmetric] by simp
qed

lemma pop_levels_submap: "map_of (pop_levels lvls s) \<subseteq>\<^sub>m map_of s"
proof (induction lvls arbitrary: s)
  case Nil
  show ?case by (simp add: pop_levels_def)
next
  case (Cons lvl lvls)
  have d: "map_of (AList.delete k t) \<subseteq>\<^sub>m map_of t" for k and t :: session_state
    by (auto simp: map_le_def delete_conv' dom_def)
  let ?s1 = "AList.delete (player_key lvl)
               (AList.delete (multiselect_key lvl) (AList.delete (selection_key lvl) s))"
  have step: "pop_levels (lvl # lvls) s = pop_levels lvls ?s1"
    by (simp add: pop_levels_def)
  have "map_of (pop_levels lvls ?s1) \<subseteq>\<^sub>m map_of ?s1" by (rule Cons.IH)
  also have "map_of ?s1 \<subseteq>\<^sub>m map_of s" by (rule map_le_trans[OF d map_le_trans[OF d d]])
  finally show ?case unfolding step .
qed

lemma create_streamlit_app_cases:
  fixes db inp s
  defines "d \<equiv> difficulty_selection inp"
  defines "s1 \<equiv> init_reveals d s"
  defines "s2 \<equiv> (if \<not> has_key s1 ''current_difficulty''
                  then AList.update ''current_difficulty'' (VStr d) s1 else s1)"
  shows "snd (create_streamlit_app db inp s) = s
       \<or> snd (create_streamlit_app db inp s) = s1
       \<or> snd (create_streamlit_app db inp s) = s2
       \<or> snd (create_streamlit_app db inp s) =
            AList.update ''current_difficulty'' (VStr d) (pop_levels [1..<11] s2)
       \<or> (\<exists>calls. snd (create_streamlit_app db inp s) = snd (play_levels db (level_inputs inp) calls s2))"
proof -
  have eq: "create_streamlit_app db inp s =
     (if load_latest_game_date db = None then (Raise AttributeError, s)
      else if check_for_updates_button inp then (Rerun, s)
      else if d \<noteq> ''Select a difficulty level''
           then if map_of s2 ''current_difficulty'' \<noteq> Some (VStr d)
                then (Rerun, AList.update ''current_difficulty'' (VStr d) (pop_levels [1..<11] s2))
                else (case level_calls d of
                        Inl e \<Rightarrow> (Raise e, s2)
                      | Inr calls \<Rightarrow> play_levels db (level_inputs inp) calls s2)
           else (Return (), s1))"
    by (simp only: create_streamlit_app_def Let_def s1_def s2_def d_def)
  show ?thesis unfolding eq
    by (cases "level_calls d") (simp_all only: sum.case snd_conv split: if_split, blast+)
qed


lemma create_streamlit_app_budget:
  assumes "budget_nonneg s"
  shows "budget_nonneg (snd (create_streamlit_app db inp s))"
proof -
  let ?d = "difficulty_selection inp"
  let ?s1 = "init_reveals ?d s"
  let ?s2 = "if \<not> has_key ?s1 ''current_difficulty''
             then AList.update ''current_difficulty'' (VStr ?d) ?s1 else ?s1"
  have b1: "budget_nonneg ?s1" by (rule init_reveals_budget[OF assms])
  have "map_of ?s2 ''remaining_reveals'' = map_of ?s1 ''remaining_reveals''"
    by (simp add: update_conv')
  then have b2: "budget_nonneg ?s2" using b1 budget_nonneg_cong by blast
  have "budget_nonneg (pop_levels [1..<11] ?s2)"
    by (rule budget_nonneg_submap[OF pop_levels_submap b2])
  moreover have "map_of (AList.update ''current_difficulty'' (VStr ?d) (pop_levels [1..<11] ?s2)) ''remaining_reveals''
       = map_of (pop_levels [1..<11] ?s2) ''remaining_reveals''"
    by (simp add: update_conv')
  ultimately have b3: "budget_nonneg (AList.update ''current_difficulty'' (VStr ?d) (pop_levels [1..<11] ?s2))"
    using budget_nonneg_cong by blast
  have b4: "budget_nonneg (snd (play_levels db (level_inputs inp) calls ?s2))" for calls
    by (rule play_levels_budget[OF b2])
  from create_streamlit_app_cases[of db inp s] show ?thesis
  proof (elim disjE exE)
    assume e: "snd (create_streamlit_app db inp s) = s"
    show ?thesis unfolding e by (rule assms)
  next
    assume e: "snd (create_streamlit_app db inp s) = ?s1"
    show ?thesis unfolding e by (rule b1)
  next
    assume e: "snd (create_streamlit_app db inp s) = ?s2"
    show ?thesis unfolding e by (rule b2)
  next
    assume e: "snd (create_streamlit_app db inp s) =
      AList.update ''current_difficulty'' (VStr ?d) (pop_levels [1..<11] ?s2)"
    show ?thesis unfolding e by (rule b3)
  next
    fix calls
    assume e: "snd (create_streamlit_app db inp s) = snd (play_levels db (level_inputs inp) calls ?s2)"
    show ?thesis unfolding e by (rule b4)
  qed
qed

lemma run_session_budget:
  assumes "budget_nonneg s"
  shows "budget_nonneg (run_session passes s)"
  using assms unfolding run_session_def
proof (induction passes arbitrary: s)
  case Nil
  then show ?case by simp
next
  case (Cons pass passes)
  obtain db inp where "pass = (db, inp)" by (cases pass) auto
  then show ?case using Cons.IH[OF create_streamlit_app_budget[OF Cons.prems, of db inp]] by simp
qed

lemma random_choice_any:
  assumes "x \<in> set xs"
  shows "\<exists>r. random_choice r xs = Inr x"
proof -
  from assms obtain i where i: "i < length xs" "xs ! i = x" by (auto simp: in_set_conv_nth)
  then have "xs \<noteq> []" by auto
  from random_choice_nonempty[OF this, of i] i show ?thesis by auto
qed

text \<open>
  Claim C5. When a call gets to the reveal button with a counter \<open>n > 0\<close> and the button is
  clicked, the stored selection becomes the multiselect's list with exactly one club
  appended, the club that \<open>random.choice\<close> picks from the answers (no check whether it is
  already selected), the counter becomes \<open>n - 1\<close>, every other entry stays, and the call
  ends in a rerun. With the counter at 0 a click changes nothing: the call behaves as
  without it. Every call keeps a non-negative counter non-negative, and after any
  sequence of passes from the empty state the counter is not negative.
\<close>

theorem reveal_budget:
  "(assign_player db (choice_player inp) level m s = Inr s1
      \<and> level_answers_of db level s1 = Inr level_answers
      \<and> map_of s ''remaining_reveals'' = Some (VInt n) \<and> 0 < n \<and> reveal_button inp
    \<longrightarrow> (\<exists>s'. render_level db inp level m start s = (NotEvaluated, Rerun, s')
          \<and> map_of s' (selection_key level) =
               Some (VList (multiselect inp @ [level_answers ! (choice_reveal inp mod length level_answers)]))
          \<and> level_answers ! (choice_reveal inp mod length level_answers) \<in> set level_answers
          \<and> map_of s' ''remaining_reveals'' = Some (VInt (n - 1))
          \<and> (\<forall>k. k \<noteq> selection_key level \<and> k \<noteq> ''remaining_reveals'' \<longrightarrow> map_of s' k = map_of s1 k)))
   \<and> (map_of s ''remaining_reveals'' = Some (VInt 0)
    \<longrightarrow> render_level db (inp\<lparr>reveal_button := True\<rparr>) level m start s =
        render_level db (inp\<lparr>reveal_button := False\<rparr>) level m start s)
   \<and> (budget_nonneg s \<longrightarrow> budget_nonneg (snd (snd (render_level db inp level m start s))))
   \<and> budget_nonneg (run_session passes [])"
proof (intro conjI impI)
  assume a: "assign_player db (choice_player inp) level m s = Inr s1
      \<and> level_answers_of db level s1 = Inr level_answers
      \<and> map_of s ''remaining_reveals'' = Some (VInt n) \<and> 0 < n \<and> reveal_button inp"
  then show "\<exists>s'. render_level db inp level m start s = (NotEvaluated, Rerun, s')
          \<and> map_of s' (selection_key level) =
               Some (VList (multiselect inp @ [level_answers ! (choice_reveal inp mod length level_answers)]))
          \<and> level_answers ! (choice_reveal inp mod length level_answers) \<in> set level_answers
          \<and> map_of s' ''remaining_reveals'' = Some (VInt (n - 1))
          \<and> (\<forall>k. k \<noteq> selection_key level \<and> k \<noteq> ''remaining_reveals'' \<longrightarrow> map_of s' k = map_of s1 k)"
    using reveal_effect[of db inp level m s s1 level_answers n start] by blast
next
  assume "map_of s ''remaining_reveals'' = Some (VInt 0)"
  then show "render_level db (inp\<lparr>reveal_button := True\<rparr>) level m start s =
        render_level db (inp\<lparr>reveal_button := False\<rparr>) level m start s"
    by (rule reveal_ignored) simp
next
  assume "budget_nonneg s"
  then show "budget_nonneg (snd (snd (render_level db inp level m start s)))"
    by (rule render_level_budget)
next
  have "budget_nonneg []" by (simp add: budget_nonneg_def)
  then show "budget_nonneg (run_session passes [])" by (rule run_session_budget)
qed

theorem reveal_budget_witness:
  "(\<exists>s'. render_level quiz_db (no_click\<lparr>multiselect := [''Y''], reveal_button := True, choice_reveal := 1\<rparr>)
            1 10 10 hard_state = (NotEvaluated, Rerun, s')
     \<and> map_of s' (selection_key 1) = Some (VList [''Y'', ''Y''])
     \<and> map_of s' ''remaining_reveals'' = Some (VInt 0))
   \<and> map_of revealed_state ''remaining_reveals'' = Some (VInt 0)
   \<and> render_level quiz_db (no_click\<lparr>reveal_button := True\<rparr>) 1 10 10 revealed_state =
       render_level quiz_db (no_click\<lparr>reveal_button := False\<rparr>) 1 10 10 revealed_state"
proof -
  have spent: "map_of revealed_state ''remaining_reveals'' = Some (VInt 0)"
    by (simp add: revealed_state_def)
  from reveal_budget[of quiz_db no_click 1 10 revealed_state _ _ _ 10] spent
  have ignored: "render_level quiz_db (no_click\<lparr>reveal_button := True\<rparr>) 1 10 10 revealed_state =
       render_level quiz_db (no_click\<lparr>reveal_button := False\<rparr>) 1 10 10 revealed_state"
    by blast
  let ?inp = "no_click\<lparr>multiselect := [''Y''], reveal_button := True, choice_reveal := 1\<rparr>"
  let ?s1 = "hard_state @ [(''level_1_selection'', VList [])]"
  have a: "assign_player quiz_db (choice_player ?inp) 1 10 hard_state = Inr ?s1"
    unfolding One_nat_def by (rule quiz_assign)
  have la: "level_answers_of quiz_db 1 ?s1 = Inr [''X'', ''Y'']"
    unfolding One_nat_def by (rule quiz_level_answers)
  have rr: "map_of hard_state ''remaining_reveals'' = Some (VInt 1)" by (simp add: hard_state_def)
  have click: "reveal_button ?inp" by (simp add: no_click_def)
  have pick: "multiselect ?inp @ [[''X'', ''Y''] ! (choice_reveal ?inp mod length [''X'', ''Y''])] = [''Y'', ''Y'']"
    by (simp add: no_click_def)
  have pos: "(0::int) < 1" by simp
  from reveal_budget[of quiz_db ?inp 1 10 hard_state ?s1 "[''X'', ''Y'']" 1 10] a la rr pos click
  have "\<exists>s'. render_level quiz_db ?inp 1 10 10 hard_state = (NotEvaluated, Rerun, s')
          \<and> map_of s' (selection_key 1) =
               Some (VList (multiselect ?inp @ [[''X'', ''Y''] ! (choice_reveal ?inp mod length [''X'', ''Y''])]))
          \<and> map_of s' ''remaining_reveals'' = Some (VInt (1 - 1))"
    by blast
  then have "\<exists>s'. render_level quiz_db ?inp 1 10 10 hard_state = (NotEvaluated, Rerun, s')
          \<and> map_of s' (selection_key 1) = Some (VList [''Y'', ''Y''])
          \<and> map_of s' ''remaining_reveals'' = Some (VInt 0)"
    unfolding pick by simp
  with spent ignored show ?thesis by blast
qed

section \<open>Thresholds of the levels\<close>

lemma game_difficulty_lookup:
  "map_of game_difficulty ''Easy'' = Some 17"
  "map_of game_difficulty ''Normal'' = Some 14"
  "map_of game_difficulty ''Hard'' = Some 10"
  by (simp_all add: game_difficulty_def)

lemma level_calls_nth:
  assumes "map_of game_difficulty d = Some start" and "1 \<le> k" and "k \<le> 10"
  shows "\<exists>calls. level_calls d = Inr calls \<and> length calls = 10
           \<and> calls ! (k - 1) = (k, start + 1 - int k, start)"
proof -
  have "k - 1 < length [1..<11::nat]" using assms by simp
  then have "map (level_arguments start) [1..<11] ! (k - 1) = level_arguments start ([1..<11] ! (k - 1))"
    by (rule nth_map)
  moreover have "[1..<11::nat] ! (k - 1) = k"
    using assms by simp
  ultimately show ?thesis
    using assms by (simp add: level_calls_def level_arguments_def)
qed

lemma easy_calls:
  "level_calls ''Easy'' =
     Inr [(1, 17, 17), (2, 16, 17), (3, 15, 17), (4, 14, 17), (5, 13, 17),
          (6, 12, 17), (7, 11, 17), (8, 10, 17), (9, 9, 17), (10, 8, 17)]"
  by (simp add: level_calls_def game_difficulty_def level_arguments_def upt_rec)

text \<open>
  Claim C6, as amended. For each of the three difficulties (Easy: start 17, budget 3;
  Normal: start 14, budget 2; Hard: start 10, budget 1) and each level \<open>k\<close> from 1 to
  10, the loop calls \<^verbatim>\<open>render_level\<close> for level \<open>k\<close> with the threshold
  \<open>start + 1 - k\<close>: it is \<open>start\<close> at level 1, one less at each next level, and
  \<open>start - 9\<close> at level 10.
\<close>

theorem level_threshold:
  assumes "(d, start, budget) \<in> {(''Easy'', 17, 3), (''Normal'', 14, 2), (''Hard'', 10, 1)}"
    and "1 \<le> k" and "k \<le> 10"
  shows "map_of game_difficulty d = Some start \<and> map_of reveals_per_difficulty d = Some budget
    \<and> (\<exists>calls. level_calls d = Inr calls \<and> length calls = 10
          \<and> calls ! (k - 1) = (k, start + 1 - int k, start)
          \<and> fst (snd (calls ! 0)) = start
          \<and> (k < 10 \<longrightarrow> fst (snd (calls ! k)) = fst (snd (calls ! (k - 1))) - 1)
          \<and> fst (snd (calls ! 9)) = start - 9)"
proof -
  from assms(1) have gd: "map_of game_difficulty d = Some start"
    and rv: "map_of reveals_per_difficulty d = Some budget"
    by (auto simp: game_difficulty_def reveals_per_difficulty_def)
  from level_calls_nth[OF gd assms(2,3)] obtain calls where
    c: "level_calls d = Inr calls" "length calls = 10"
      "calls ! (k - 1) = (k, start + 1 - int k, start)" by blast
  from level_calls_nth[OF gd, of 1] c(1) have c1: "calls ! 0 = (1, start + 1 - int 1, start)"
    by simp
  from level_calls_nth[OF gd, of 10] c(1) have c10: "calls ! 9 = (10, start + 1 - int 10, start)"
    by simp
  have step: "fst (snd (calls ! k)) = fst (snd (calls ! (k - 1))) - 1" if "k < 10"
  proof -
    from level_calls_nth[OF gd, of "Suc k"] c(1) that
    have "calls ! k = (Suc k, start + 1 - int (Suc k), start)" by simp
    with c(3) show ?thesis by simp
  qed
  show ?thesis using gd rv c c1 c10 step by simp
qed

theorem level_threshold_witness:
  "map_of game_difficulty ''Normal'' = Some 14 \<and> map_of reveals_per_difficulty ''Normal'' = Some 2
    \<and> (\<exists>calls. level_calls ''Normal'' = Inr calls \<and> length calls = 10
          \<and> calls ! (3 - 1) = (3, 14 + 1 - int 3, 14)
          \<and> fst (snd (calls ! 0)) = 14
          \<and> ((3::nat) < 10 \<longrightarrow> fst (snd (calls ! 3)) = fst (snd (calls ! (3 - 1))) - 1)
          \<and> fst (snd (calls ! 9)) = 14 - 9)"
  using level_threshold[of "''Normal''" 14 2 3] by simp

text \<open>The claim as written ends at \<open>start - 8\<close> at level 10. For Easy the tenth call has
  threshold 8, which is \<open>17 - 9\<close>.\<close>

theorem level_threshold_counterexample:
  "level_calls ''Easy'' =
     Inr [(1, 17, 17), (2, 16, 17), (3, 15, 17), (4, 14, 17), (5, 13, 17),
          (6, 12, 17), (7, 11, 17), (8, 10, 17), (9, 9, 17), (10, 8, 17)]
   \<and> (8::int) \<noteq> 17 - 8"
  by (simp add: easy_calls)

section \<open>Drawing from an empty pool\<close>

lemma one_player_pool: "load_players one_player_db 17 = [''A'']" "load_players one_player_db 16 = [''A'']"
  by (simp_all add: load_players_def one_player_db_def champions_league_def)

lemma one_player_data: "load_players_data one_player_db ''A'' = Inr ([''X''], 17)"
  by (simp add: load_players_data_def player_rows_def one_player_db_def champions_league_def
      series_mode_def max_count_def iat0_def)

lemma one_player_date: "load_latest_game_date one_player_db = Some 1"
  by (simp add: load_latest_game_date_def one_player_db_def champions_league_def)

lemma one_player_level_1_first:
  "render_level one_player_db no_click (Suc 0) 17 17
     [(''remaining_reveals'', VInt 3), (''previous_difficulty'', VStr ''Easy''),
      (''current_difficulty'', VStr ''Easy'')]
   = (NotEvaluated, Return False, easy_state [])"
  by (simp add: render_level_def assign_player_def exclude_used_def state_values_def
      one_player_pool has_key_def level_1_keys random_choice_def level_answers_of_def
      one_player_data no_click_def evaluate_selection_def easy_state_def)

lemma one_player_first_pass:
  "create_streamlit_app one_player_db easy_first [] = (Return (), easy_state [])"
  by (simp add: create_streamlit_app_def one_player_date easy_first_def init_reveals_def
      has_key_def reveals_per_difficulty_def easy_calls one_player_level_1_first)

lemma one_player_level_1_answer:
  "render_level one_player_db (no_click\<lparr>multiselect := [''X'']\<rparr>) (Suc 0) 17 17 (easy_state [])
   = (EvaluatedCorrect, Return True, easy_state [''X''])"
  by (simp add: render_level_def assign_player_def exclude_used_def state_values_def
      one_player_pool has_key_def level_1_keys random_choice_def level_answers_of_def
      one_player_data no_click_def evaluate_selection_def easy_state_def)

lemma one_player_level_2_pool:
  "\<not> has_key (easy_state [''X'']) (player_key 2)"
  "exclude_used (easy_state [''X'']) (load_players one_player_db 16) = []"
  by (simp_all add: has_key_def easy_state_def level_2_keys exclude_used_def state_values_def one_player_pool)

lemma render_level_empty_pool:
  assumes "\<not> has_key s (player_key level)" and "exclude_used s (load_players db m) = []"
  shows "render_level db inp level m start s = (NotEvaluated, Raise IndexError, s)"
  using assign_player_fails[OF assms] by (simp add: render_level_def)

lemma one_player_second_pass:
  "create_streamlit_app one_player_db easy_answer (easy_state []) = (Raise IndexError, easy_state [''X''])"
proof -
  have l2: "render_level one_player_db no_click 2 16 17 (easy_state [''X'']) =
      (NotEvaluated, Raise IndexError, easy_state [''X''])"
    by (rule render_level_empty_pool[OF one_player_level_2_pool])
  have init: "init_reveals ''Easy'' (easy_state []) = easy_state []"
    by (simp add: init_reveals_def has_key_def easy_state_def)
  have cur: "has_key (easy_state []) ''current_difficulty''"
    "map_of (easy_state []) ''current_difficulty'' = Some (VStr ''Easy'')"
    by (simp_all add: has_key_def easy_state_def)
  show ?thesis
    by (simp add: create_streamlit_app_def one_player_date easy_answer_def init cur easy_calls
        one_player_level_1_answer l2)
qed

text \<open>
  Claim C8. The assignment of a player is not total: when the level has no player yet
  and the pool, after the players already in the state are dropped, is empty, the call
  of \<open>render_level\<close> ends with the IndexError of \<open>random.choice\<close> and leaves the state as
  it was; and this happens in a session that starts from the empty state (a table with
  one eligible player, whose level 1 is answered correctly: level 2 has nobody left).
\<close>

theorem empty_pool_draw_fails:
  "(\<not> has_key s (player_key level) \<and> exclude_used s (load_players db m) = []
      \<longrightarrow> render_level db inp level m start s = (NotEvaluated, Raise IndexError, s))
   \<and> (\<exists>db passes inp. fst (create_streamlit_app db inp (run_session passes [])) = Raise IndexError)"
proof (intro conjI impI)
  assume "\<not> has_key s (player_key level) \<and> exclude_used s (load_players db m) = []"
  then show "render_level db inp level m start s = (NotEvaluated, Raise IndexError, s)"
    using render_level_empty_pool by blast
next
  have "run_session [(one_player_db, easy_first)] [] = easy_state []"
    by (simp add: run_session_def one_player_first_pass)
  then have "fst (create_streamlit_app one_player_db easy_answer
                    (run_session [(one_player_db, easy_first)] [])) = Raise IndexError"
    by (simp add: one_player_second_pass)
  then show "\<exists>db passes inp. fst (create_streamlit_app db inp (run_session passes [])) = Raise IndexError"
    by blast
qed

theorem empty_pool_draw_fails_witness:
  "\<not> has_key (easy_state [''X'']) (player_key 2)
   \<and> exclude_used (easy_state [''X'']) (load_players one_player_db 16) = []
   \<and> render_level one_player_db no_click 2 16 17 (easy_state [''X'']) =
       (NotEvaluated, Raise IndexError, easy_state [''X''])"
  using empty_pool_draw_fails[of "easy_state [''X'']" 2 one_player_db 16 no_click 17]
    one_player_level_2_pool
  by blast

section \<open>A revealed duplicate\<close>

lemma quiz_reveal:
  "render_level quiz_db reveal_click (Suc 0) 10 10 hard_state = (NotEvaluated, Rerun, revealed_state)"
proof -
  have s2: "AList.update ''level_1_selection'' (VList [''Y'']) (hard_state @ [(''level_1_selection'', VList [])])
      = hard_state @ [(''level_1_selection'', VList [''Y''])]"
    by (simp add: hard_state_def)
  show ?thesis
    by (simp add: render_level_def quiz_assign quiz_level_answers reveal_click_def no_click_def
        level_1_keys s2)
       (simp add: hard_state_def reveal_team_def random_choice_def level_1_keys revealed_state_def)
qed

lemma distinct_selection_wrong_set:
  assumes "distinct selection" and "length selection = length level_answers"
    and "set selection - set level_answers = {}"
  shows "set selection = set level_answers"
proof -
  from assms(3) have sub: "set selection \<subseteq> set level_answers" by blast
  have "card (set level_answers) \<le> length level_answers" by (rule card_length)
  also have "\<dots> = card (set selection)" using assms(1,2) by (simp add: distinct_card)
  finally show ?thesis using sub by (intro card_seteq) simp_all
qed

lemma distinct_multiselect_wrong_set:
  assumes "distinct (multiselect inp)"
  shows "fst (render_level db inp level m start s) \<noteq> EvaluatedIncorrect {} n"
proof (cases "before_evaluation db inp level m s")
  case None
  from before_evaluation_None[OF this, of start] show ?thesis by simp
next
  case (Some t)
  obtain selection level_answers s2 where t: "t = (selection, level_answers, s2)" by (cases t) auto
  note pre = before_evaluation_Some[OF Some[unfolded t]]
  show ?thesis
  proof (cases "length selection = length level_answers")
    case False
    from evaluate_selection_mismatch[OF pre(2) False] show ?thesis by (simp add: pre(4))
  next
    case True
    show ?thesis
    proof (cases "set selection = set level_answers")
      case same: True
      from evaluate_selection_correct[OF pre(2) True same] show ?thesis by (simp add: pre(4))
    next
      case False
      have d: "distinct selection" using assms pre(1) by simp
      from distinct_selection_wrong_set[OF d True] False
      have "set selection - set level_answers \<noteq> {}" by blast
      moreover from evaluate_selection_incorrect[OF pre(2) True False]
      have "fst (render_level db inp level m start s) =
          EvaluatedIncorrect (set selection - set level_answers)
            (card (set selection \<inter> set level_answers))" by (simp add: pre(4))
      ultimately show ?thesis by simp
    qed
  qed
qed

lemma quiz_after_reveal:
  "render_level quiz_db (no_click\<lparr>multiselect := [''Y'']\<rparr>) (Suc 0) 10 10 revealed_state =
     (NotEvaluated, Return False,
      [(''remaining_reveals'', VInt 0), (''previous_difficulty'', VStr ''Hard''),
       (''current_difficulty'', VStr ''Hard''), (''level_1_player'', VStr ''A''),
       (''level_1_selection'', VList [''Y''])])"
  by (simp add: render_level_def assign_player_def has_key_def revealed_state_def level_1_keys
      level_answers_of_def quiz_player_A no_click_def evaluate_selection_def)

text \<open>
  Claim C9, as amended. In the example scenario (answers X and Y, one reveal left) the
  user has selected Y and clicks the reveal button, which picks Y again: the stored
  selection is the list Y, Y. It has a duplicate, it is as long as the list of answers,
  and each of its clubs is an answer. This list is never evaluated: what a call compares
  is the list that the multiselect returns in that call, and when that list has no
  duplicate, an "incorrect" verdict always names at least one wrong club.
\<close>

theorem duplicate_reveal_not_evaluated:
  "render_level quiz_db reveal_click 1 10 10 hard_state = (NotEvaluated, Rerun, revealed_state)
   \<and> map_of revealed_state (selection_key 1) = Some (VList [''Y'', ''Y''])
   \<and> \<not> distinct [''Y'', ''Y'']
   \<and> level_answers_of quiz_db 1 revealed_state = Inr [''X'', ''Y'']
   \<and> length [''Y'', ''Y''] = length [''X'', ''Y'']
   \<and> set [''Y'', ''Y''] \<subseteq> set [''X'', ''Y'']
   \<and> (before_evaluation db inp level m s = Some (selection, level_answers, s2)
        \<longrightarrow> selection = multiselect inp)
   \<and> (distinct (multiselect inp)
        \<longrightarrow> fst (render_level db inp level m start s) \<noteq> EvaluatedIncorrect {} n)"
proof -
  have la: "level_answers_of quiz_db (Suc 0) revealed_state = Inr [''X'', ''Y'']"
    by (simp add: level_answers_of_def revealed_state_def level_1_keys quiz_player_A)
  have sel: "map_of revealed_state (selection_key (Suc 0)) = Some (VList [''Y'', ''Y''])"
    by (simp add: revealed_state_def level_1_keys)
  have facts: "\<not> distinct [''Y'', ''Y'']" "length [''Y'', ''Y''] = length [''X'', ''Y'']"
    "set [''Y'', ''Y''] \<subseteq> set [''X'', ''Y'']" by simp_all
  have read: "before_evaluation db inp level m s = Some (selection, level_answers, s2)
        \<longrightarrow> selection = multiselect inp"
    using before_evaluation_Some(1) by blast
  have wrong: "distinct (multiselect inp)
        \<longrightarrow> fst (render_level db inp level m start s) \<noteq> EvaluatedIncorrect {} n"
    using distinct_multiselect_wrong_set by blast
  show ?thesis
    unfolding One_nat_def quiz_reveal
    using la sel facts read wrong by blast
qed

theorem duplicate_reveal_not_evaluated_witness:
  "distinct (multiselect (no_click\<lparr>multiselect := [''Y'']\<rparr>))
   \<and> before_evaluation quiz_db (no_click\<lparr>multiselect := [''Y'']\<rparr>) 1 10 hard_state =
       Some ([''Y''], [''X'', ''Y''], hard_state @ [(''level_1_selection'', VList [''Y''])])
   \<and> [''Y''] = multiselect (no_click\<lparr>multiselect := [''Y'']\<rparr>)
   \<and> fst (render_level quiz_db (no_click\<lparr>multiselect := [''Y'']\<rparr>) 1 10 10 revealed_state)
       \<noteq> EvaluatedIncorrect {} 1"
proof -
  let ?inp = "no_click\<lparr>multiselect := [''Y'']\<rparr>"
  have d: "distinct (multiselect ?inp)" by simp
  have pre: "before_evaluation quiz_db ?inp 1 10 hard_state =
       Some ([''Y''], [''X'', ''Y''], hard_state @ [(''level_1_selection'', VList [''Y''])])"
    unfolding One_nat_def by (rule quiz_before)
  from duplicate_reveal_not_evaluated[of quiz_db ?inp 1 10 hard_state "[''Y'']" "[''X'', ''Y'']"
      "hard_state @ [(''level_1_selection'', VList [''Y''])]" 10 1] pre
  have "[''Y''] = multiselect ?inp" by blast
  moreover from duplicate_reveal_not_evaluated[of quiz_db ?inp 1 10 revealed_state _ _ _ 10 1] d
  have "fst (render_level quiz_db ?inp 1 10 10 revealed_state) \<noteq> EvaluatedIncorrect {} 1"
    by blast
  ultimately show ?thesis using d pre by blast
qed

text \<open>The claim as written has the list Y, Y evaluated, with an "incorrect" verdict that
  names no wrong club. After the reveal the multiselect still returns Y: the next call
  stores Y, compares it and returns False without a verdict. No call whose multiselect
  list has no duplicate gives an "incorrect" verdict with an empty set of wrong clubs.\<close>

theorem duplicate_reveal_counterexample:
  "render_level quiz_db reveal_click 1 10 10 hard_state = (NotEvaluated, Rerun, revealed_state)
   \<and> render_level quiz_db (no_click\<lparr>multiselect := [''Y'']\<rparr>) 1 10 10 revealed_state =
       (NotEvaluated, Return False,
        [(''remaining_reveals'', VInt 0), (''previous_difficulty'', VStr ''Hard''),
         (''current_difficulty'', VStr ''Hard''), (''level_1_player'', VStr ''A''),
         (''level_1_selection'', VList [''Y''])])
   \<and> \<not> (\<exists>db inp level m start s n. distinct (multiselect inp)
           \<and> fst (render_level db inp level m start s) = EvaluatedIncorrect {} n)"
proof -
  have "\<not> (\<exists>db inp level m start s n. distinct (multiselect inp)
           \<and> fst (render_level db inp level m start s) = EvaluatedIncorrect {} n)"
    using distinct_multiselect_wrong_set by blast
  then show ?thesis unfolding One_nat_def quiz_reveal quiz_after_reveal by simp
qed

section \<open>One player per level\<close>

lemma players_injective_empty: "players_injective []"
  by (simp add: players_injective_def has_key_def)

lemma players_injective_submap:
  assumes "map_of s' \<subseteq>\<^sub>m map_of s" and "players_injective s"
  shows "players_injective s'"
  unfolding players_injective_def
proof (intro ballI impI)
  fix j k
  assume j: "j \<in> {1..10}" and k: "k \<in> {1..10}"
    and h: "has_key s' (player_key j) \<and> map_of s' (player_key j) = map_of s' (player_key k)"
  from h have h1: "map_of s' (player_key j) \<noteq> None"
    unfolding has_key_def by (rule conjunct1)
  from h have h2: "map_of s' (player_key j) = map_of s' (player_key k)" by (rule conjunct2)
  from h1 obtain v where v1: "map_of s' (player_key j) = Some v" by blast
  with h2 have v2: "map_of s' (player_key k) = Some v" by simp
  note v = v1 v2
  with assms(1) have "map_of s (player_key j) = Some v" "map_of s (player_key k) = Some v"
    by (auto simp: map_le_def dom_def)
  with assms(2) j k show "j = k" by (auto simp: players_injective_def has_key_def)
qed

lemma players_injective_frame:
  assumes "\<And>k. map_of s' (player_key k) = map_of s (player_key k)"
  shows "players_injective s' = players_injective s"
  by (simp add: players_injective_def has_key_def assms)

lemma players_injective_single:
  assumes "\<And>k. k \<in> {2..10} \<Longrightarrow> map_of s (player_key k) = None"
  shows "players_injective s"
  unfolding players_injective_def
proof (intro ballI impI)
  fix j k :: nat
  assume j: "j \<in> {1..10}" and k: "k \<in> {1..10}"
    and h: "has_key s (player_key j) \<and> map_of s (player_key j) = map_of s (player_key k)"
  from h have h1: "map_of s (player_key j) \<noteq> None"
    unfolding has_key_def by (rule conjunct1)
  from h have h2: "map_of s (player_key j) = map_of s (player_key k)" by (rule conjunct2)
  have "j = 1"
  proof (rule ccontr)
    assume "j \<noteq> 1"
    with j have "j \<in> {2..10}" by auto
    from assms[OF this] h1 show False by simp
  qed
  moreover have "k = 1"
  proof (rule ccontr)
    assume "k \<noteq> 1"
    with k have "k \<in> {2..10}" by auto
    from assms[OF this] h1 h2 show False by simp
  qed
  ultimately show "j = k" by simp
qed

lemma assign_player_injective:
  assumes a: "assign_player db r level m s = Inr s1" and inj: "players_injective s"
  shows "players_injective s1"
proof (cases "has_key s (player_key level)")
  case True
  have "map_of s1 (player_key k) = map_of s (player_key k)" for k
    using assign_player_Inr[OF a] True by (cases "k = level") simp_all
  from players_injective_frame[of s1 s, OF this] inj show ?thesis by simp
next
  case False
  from assign_player_Inr[OF a] False obtain p where
    p: "map_of s1 (player_key level) = Some (VStr p)"
    and ch: "random_choice r (exclude_used s (load_players db m)) = Inr p"
    and other: "\<And>k. k \<noteq> level \<Longrightarrow> map_of s1 (player_key k) = map_of s (player_key k)"
    by auto
  from drawn_player_unused[OF ch] have fresh: "\<And>k. map_of s k \<noteq> Some (VStr p)" by blast
  show ?thesis unfolding players_injective_def
  proof (intro ballI impI)
    fix j k
    assume j: "j \<in> {1..10}" and k: "k \<in> {1..10}"
      and h: "has_key s1 (player_key j) \<and> map_of s1 (player_key j) = map_of s1 (player_key k)"
    show "j = k"
    proof (cases "j = level")
      case jl: True
      show ?thesis
      proof (rule ccontr)
        assume "j \<noteq> k"
        with jl have "k \<noteq> level" by simp
        from other[OF this] h jl p have "map_of s (player_key k) = Some (VStr p)" by simp
        with fresh show False by blast
      qed
    next
      case jl: False
      show ?thesis
      proof (cases "k = level")
        case True
        from other[OF jl] h True p have "map_of s (player_key j) = Some (VStr p)" by simp
        with fresh show ?thesis by blast
      next
        case False
        from h have "has_key s1 (player_key j)" by (rule conjunct1)
        moreover from h have "map_of s1 (player_key j) = map_of s1 (player_key k)" by (rule conjunct2)
        ultimately have "has_key s (player_key j) \<and> map_of s (player_key j) = map_of s (player_key k)"
          unfolding has_key_def other[OF jl] other[OF False] by simp
        with inj j k show ?thesis by (auto simp: players_injective_def)
      qed
    qed
  qed
qed

lemma reveal_team_frame:
  assumes "k \<noteq> selection_key level" and "k \<noteq> ''remaining_reveals''"
  shows "map_of (snd (snd (reveal_team r level level_answers s))) k = map_of s k"
  using assms
  by (auto simp: reveal_team_def Let_def update_conv' split: sum.splits option.splits val.splits)

lemma reset_levels_injective:
  assumes "players_injective s"
  shows "players_injective (snd (reset_levels db r start [1..<11] s))"
proof (cases "random_choice r (load_players db start)")
  case (Inl e)
  from players_injective_submap[OF reset_levels_raises[OF Inl] assms] show ?thesis .
next
  case (Inr p)
  show ?thesis
  proof (rule players_injective_single)
    fix k :: nat
    assume "k \<in> {2..10}"
    then have "k \<in> set [1..<11]" "k \<noteq> 1" by auto
    from reset_levels_clears[OF Inr this(1), of "player_key k"] this(2)
    show "map_of (snd (reset_levels db r start [1..<11] s)) (player_key k) = None" by simp
  qed
qed

lemma evaluate_selection_injective:
  assumes "players_injective s"
  shows "players_injective (snd (snd (evaluate_selection db inp level start level_answers s)))"
  using evaluate_selection_state[of db inp level start level_answers s]
proof (elim disjE)
  assume eq: "snd (snd (evaluate_selection db inp level start level_answers s)) = s"
  show ?thesis unfolding eq by (rule assms)
next
  assume eq: "snd (snd (evaluate_selection db inp level start level_answers s)) = []"
  show ?thesis unfolding eq by (rule players_injective_empty)
next
  assume eq: "snd (snd (evaluate_selection db inp level start level_answers s)) =
    snd (reset_levels db (choice_restart inp) start [1..<11] s)"
  show ?thesis unfolding eq by (rule reset_levels_injective[OF assms])
qed

text \<open>The state of a call is the state after the assignment with the selection stored,
  or what the reveal or the evaluation make of it.\<close>

lemma render_level_state:
  "snd (snd (render_level db inp level m start s)) = s
   \<or> (\<exists>s1. assign_player db (choice_player inp) level m s = Inr s1
         \<and> (snd (snd (render_level db inp level m start s)) = s1
            \<or> (\<exists>level_answers. level_answers_of db level s1 = Inr level_answers
                 \<and> (let s2 = AList.update (selection_key level) (VList (multiselect inp)) s1
                    in snd (snd (render_level db inp level m start s)) = s2
                     \<or> render_level db inp level m start s =
                          reveal_team (choice_reveal inp) level level_answers s2
                     \<or> render_level db inp level m start s =
                          evaluate_selection db inp level start level_answers s2))))"
proof (cases "assign_player db (choice_player inp) level m s")
  case (Inl e)
  then show ?thesis by (simp add: render_level_def)
next
  case (Inr s1)
  show ?thesis
  proof (cases "level_answers_of db level s1")
    case (Inl e)
    then show ?thesis using Inr by (simp add: render_level_def)
  next
    case la: (Inr level_answers)
    define s2 where "s2 = AList.update (selection_key level) (VList (multiselect inp)) s1"
    have "render_level db inp level m start s =
        (case map_of s2 ''remaining_reveals'' of
           None \<Rightarrow> (NotEvaluated, Raise KeyError, s2)
         | Some (VInt remaining) \<Rightarrow>
             if remaining > 0 \<and> reveal_button inp
             then reveal_team (choice_reveal inp) level level_answers s2
             else evaluate_selection db inp level start level_answers s2
         | Some _ \<Rightarrow> (NotEvaluated, Raise TypeError, s2))"
      by (simp only: render_level_def Inr la sum.case Let_def s2_def)
    then have "snd (snd (render_level db inp level m start s)) = s2
       \<or> render_level db inp level m start s = reveal_team (choice_reveal inp) level level_answers s2
       \<or> render_level db inp level m start s = evaluate_selection db inp level start level_answers s2"
      by (auto split: option.splits val.splits if_splits)
    then show ?thesis using Inr la unfolding s2_def Let_def by blast
  qed
qed

lemma render_level_injective:
  assumes "players_injective s"
  shows "players_injective (snd (snd (render_level db inp level m start s)))"
proof -
  let ?out = "snd (snd (render_level db inp level m start s))"
  from render_level_state[of db inp level m start s]
  consider "?out = s"
    | s1 where "assign_player db (choice_player inp) level m s = Inr s1" "?out = s1"
    | s1 where "assign_player db (choice_player inp) level m s = Inr s1"
        "?out = AList.update (selection_key level) (VList (multiselect inp)) s1"
    | s1 level_answers where "assign_player db (choice_player inp) level m s = Inr s1"
        "render_level db inp level m start s =
           reveal_team (choice_reveal inp) level level_answers
             (AList.update (selection_key level) (VList (multiselect inp)) s1)"
    | s1 level_answers where "assign_player db (choice_player inp) level m s = Inr s1"
        "render_level db inp level m start s =
           evaluate_selection db inp level start level_answers
             (AList.update (selection_key level) (VList (multiselect inp)) s1)"
    unfolding Let_def by blast
  then show ?thesis
  proof cases
    case 1
    then show ?thesis using assms by simp
  next
    case 2
    then show ?thesis using assign_player_injective[OF 2(1) assms] by simp
  next
    case 3
    have "players_injective (AList.update (selection_key level) (VList (multiselect inp)) s1)
        = players_injective s1"
      by (rule players_injective_frame) (simp add: update_conv')
    then show ?thesis using assign_player_injective[OF 3(1) assms] 3(2) by simp
  next
    case 4
    let ?s2 = "AList.update (selection_key level) (VList (multiselect inp)) s1"
    have "players_injective ?s2 = players_injective s1"
      by (rule players_injective_frame) (simp add: update_conv')
    moreover have "players_injective (snd (snd (reveal_team (choice_reveal inp) level level_answers ?s2)))
        = players_injective ?s2"
      by (rule players_injective_frame) (simp add: reveal_team_frame)
    ultimately show ?thesis using assign_player_injective[OF 4(1) assms] 4(2) by simp
  next
    case 5
    let ?s2 = "AList.update (selection_key level) (VList (multiselect inp)) s1"
    have "players_injective ?s2 = players_injective s1"
      by (rule players_injective_frame) (simp add: update_conv')
    then have "players_injective ?s2" using assign_player_injective[OF 5(1) assms] by simp
    from evaluate_selection_injective[OF this] show ?thesis using 5(2) by simp
  qed
qed

lemma play_levels_injective:
  assumes "players_injective s"
  shows "players_injective (snd (play_levels db inps calls s))"
  using assms
proof (induction calls arbitrary: s)
  case Nil
  then show ?case by simp
next
  case (Cons call calls)
  obtain level m start where call: "call = (level, m, start)" by (cases call) auto
  obtain v c s' where r: "render_level db (inps level) level m start s = (v, c, s')"
    by (cases "render_level db (inps level) level m start s") auto
  have s': "players_injective s'"
    using render_level_injective[OF Cons.prems, of db "inps level" level m start] r by simp
  show ?case
  proof (cases c)
    case (Return passed)
    then show ?thesis using call r s' Cons.IH[OF s'] by simp
  next
    case Rerun
    then show ?thesis using call r s' by simp
  next
    case (Raise e)
    then show ?thesis using call r s' by simp
  qed
qed

lemma init_reveals_injective:
  "players_injective (init_reveals d s) = players_injective s"
  by (rule players_injective_frame) (simp add: init_reveals_def update_conv')

lemma create_streamlit_app_injective:
  assumes "players_injective s"
  shows "players_injective (snd (create_streamlit_app db inp s))"
proof -
  let ?d = "difficulty_selection inp"
  let ?s1 = "init_reveals ?d s"
  let ?s2 = "if \<not> has_key ?s1 ''current_difficulty''
             then AList.update ''current_difficulty'' (VStr ?d) ?s1 else ?s1"
  have b1: "players_injective ?s1" using assms by (simp add: init_reveals_injective)
  have "players_injective ?s2 = players_injective ?s1"
    by (rule players_injective_frame) (simp add: update_conv')
  then have b2: "players_injective ?s2" using b1 by blast
  have p: "players_injective (pop_levels [1..<11] ?s2)"
    by (rule players_injective_submap[OF pop_levels_submap b2])
  have "players_injective (AList.update ''current_difficulty'' (VStr ?d) (pop_levels [1..<11] ?s2))
      = players_injective (pop_levels [1..<11] ?s2)"
    by (rule players_injective_frame) (simp add: update_conv')
  then have b3: "players_injective (AList.update ''current_difficulty'' (VStr ?d) (pop_levels [1..<11] ?s2))"
    using p by blast
  have b4: "players_injective (snd (play_levels db (level_inputs inp) calls ?s2))" for calls
    by (rule play_levels_injective[OF b2])
  from create_streamlit_app_cases[of db inp s] show ?thesis
  proof (elim disjE exE)
    assume e: "snd (create_streamlit_app db inp s) = s"
    show ?thesis unfolding e by (rule assms)
  next
    assume e: "snd (create_streamlit_app db inp s) = ?s1"
    show ?thesis unfolding e by (rule b1)
  next
    assume e: "snd (create_streamlit_app db inp s) = ?s2"
    show ?thesis unfolding e by (rule b2)
  next
    assume e: "snd (create_streamlit_app db inp s) =
      AList.update ''current_difficulty'' (VStr ?d) (pop_levels [1..<11] ?s2)"
    show ?thesis unfolding e by (rule b3)
  next
    fix calls
    assume e: "snd (create_streamlit_app db inp s) = snd (play_levels db (level_inputs inp) calls ?s2)"
    show ?thesis unfolding e by (rule b4)
  qed
qed

lemma run_session_injective:
  assumes "players_injective s"
  shows "players_injective (run_session passes s)"
  using assms unfolding run_session_def
proof (induction passes arbitrary: s)
  case Nil
  then show ?case by simp
next
  case (Cons pass passes)
  obtain db inp where "pass = (db, inp)" by (cases pass) auto
  then show ?case using Cons.IH[OF create_streamlit_app_injective[OF Cons.prems, of db inp]] by simp
qed

text \<open>A stored player stays unless the call ends in a rerun after a verdict (the restart
  after a wrong answer, or "Play Again").\<close>

lemma reset_levels_first_fails:
  assumes "random_choice r (load_players db start) = Inl e"
  shows "map_of (snd (reset_levels db r start [1..<11] s)) (player_key k) = map_of s (player_key k)"
proof -
  have "[1..<11::nat] = 1 # [Suc 1..<11]" by (rule upt_conv_Cons) simp
  then have "reset_levels db r start [1..<11] s = reset_levels db r start (1 # [Suc 1..<11]) s"
    by (rule arg_cong)
  then show ?thesis using assms
    by (simp only: reset_levels.simps Let_def) (simp add: delete_conv')
qed

lemma evaluate_selection_sticky:
  assumes "evaluate_selection db inp level start level_answers s = (v, c, s')"
    and "\<not> (c = Rerun \<and> v \<noteq> NotEvaluated)"
  shows "map_of s' (player_key k) = map_of s (player_key k)"
proof -
  define res where "res = reset_levels db (choice_restart inp) start [1..<11] s"
  obtain err t where res: "res = (err, t)" by (cases res) auto
  show ?thesis
  proof (cases err)
    case None
    with assms res show ?thesis
      unfolding evaluate_selection_def res_def[symmetric] Let_def
      by (auto split: option.splits val.splits if_splits)
  next
    case (Some e)
    have "random_choice (choice_restart inp) (load_players db start) = Inl e"
    proof (cases "random_choice (choice_restart inp) (load_players db start)")
      case (Inl e')
      have "[1..<11::nat] = 1 # [Suc 1..<11]" by (rule upt_conv_Cons) simp
      then have "res = reset_levels db (choice_restart inp) start (1 # [Suc 1..<11]) s"
        unfolding res_def by (rule arg_cong)
      with Inl res Some show ?thesis by (simp only: reset_levels.simps Let_def) simp
    next
      case (Inr p)
      from reset_levels_succeeds[OF Inr, of "[1..<11]" s] res Some show ?thesis
        by (simp add: res_def)
    qed
    from reset_levels_first_fails[OF this, of s k] res
    have t: "map_of t (player_key k) = map_of s (player_key k)" by (simp add: res_def)
    from assms res Some t show ?thesis
      unfolding evaluate_selection_def res_def[symmetric] Let_def
      by (auto split: option.splits val.splits if_splits)
  qed
qed

lemma render_level_sticky:
  assumes "has_key s (player_key k)"
    and "render_level db inp level m start s = (v, c, s')"
    and "\<not> (c = Rerun \<and> v \<noteq> NotEvaluated)"
  shows "map_of s' (player_key k) = map_of s (player_key k)"
proof -
  have a: "map_of s1 (player_key k) = map_of s (player_key k)"
    if "assign_player db (choice_player inp) level m s = Inr s1" for s1
    using assign_player_Inr[OF that] assms(1) by (cases "k = level") simp_all
  have b: "map_of (AList.update (selection_key level) (VList (multiselect inp)) s1) (player_key k)
      = map_of s (player_key k)"
    if "assign_player db (choice_player inp) level m s = Inr s1" for s1
    using a[OF that] by (simp add: update_conv')
  from assms(2) have out: "snd (snd (render_level db inp level m start s)) = s'" by simp
  from render_level_state[of db inp level m start s]
  consider "s' = s"
    | s1 where "assign_player db (choice_player inp) level m s = Inr s1" "s' = s1"
    | s1 where "assign_player db (choice_player inp) level m s = Inr s1"
        "s' = AList.update (selection_key level) (VList (multiselect inp)) s1"
    | s1 level_answers where "assign_player db (choice_player inp) level m s = Inr s1"
        "render_level db inp level m start s =
           reveal_team (choice_reveal inp) level level_answers
             (AList.update (selection_key level) (VList (multiselect inp)) s1)"
    | s1 level_answers where "assign_player db (choice_player inp) level m s = Inr s1"
        "render_level db inp level m start s =
           evaluate_selection db inp level start level_answers
             (AList.update (selection_key level) (VList (multiselect inp)) s1)"
    unfolding Let_def out by blast
  then show ?thesis
  proof cases
    case 1
    then show ?thesis by simp
  next
    case 2
    then show ?thesis using a by simp
  next
    case 3
    then show ?thesis using b by simp
  next
    case 4
    from out have "s' = snd (snd (reveal_team (choice_reveal inp) level level_answers
             (AList.update (selection_key level) (VList (multiselect inp)) s1)))"
      unfolding 4(2) by (rule sym)
    then show ?thesis using b[OF 4(1)] by (simp add: reveal_team_frame)
  next
    case 5
    from assms(2) have "evaluate_selection db inp level start level_answers
             (AList.update (selection_key level) (VList (multiselect inp)) s1) = (v, c, s')"
      unfolding 5(2) .
    from evaluate_selection_sticky[OF this assms(3)] b[OF 5(1)] show ?thesis by simp
  qed
qed

lemma hard_calls:
  "level_calls ''Hard'' =
     Inr [(1, 10, 10), (2, 9, 10), (3, 8, 10), (4, 7, 10), (5, 6, 10),
          (6, 5, 10), (7, 4, 10), (8, 3, 10), (9, 2, 10), (10, 1, 10)]"
  by (simp add: level_calls_def game_difficulty_def level_arguments_def upt_rec)

lemma quiz_pool_9: "load_players quiz_db 9 = [''A'', ''B'']"
  by (simp add: load_players_def quiz_db_def champions_league_def)

lemma quiz_player_B: "load_players_data quiz_db ''B'' = Inr ([''X''], 12)"
  by (simp add: load_players_data_def player_rows_def quiz_db_def champions_league_def
      series_mode_def max_count_def iat0_def)

lemma quiz_date: "load_latest_game_date quiz_db = Some 3"
  by (simp add: load_latest_game_date_def quiz_db_def champions_league_def)

lemma hard_level_1_first:
  "render_level quiz_db no_click (Suc 0) 10 10
     [(''remaining_reveals'', VInt 1), (''previous_difficulty'', VStr ''Hard''),
      (''current_difficulty'', VStr ''Hard'')]
   = (NotEvaluated, Return False, hard_level_1 [])"
  by (simp add: render_level_def assign_player_def exclude_used_def state_values_def
      quiz_players has_key_def level_1_keys random_choice_def level_answers_of_def
      quiz_player_A no_click_def evaluate_selection_def hard_level_1_def)

lemma hard_first_pass:
  "create_streamlit_app quiz_db hard_first [] = (Return (), hard_level_1 [])"
  by (simp add: create_streamlit_app_def quiz_date hard_first_def init_reveals_def
      has_key_def reveals_per_difficulty_def hard_calls hard_level_1_first)

lemma hard_level_1_answer:
  "render_level quiz_db (no_click\<lparr>multiselect := [''X'', ''Y'']\<rparr>) (Suc 0) 10 10 (hard_level_1 [])
   = (EvaluatedCorrect, Return True, hard_level_1 [''X'', ''Y''])"
  by (simp add: render_level_def assign_player_def has_key_def level_1_keys level_answers_of_def
      quiz_player_A no_click_def evaluate_selection_def hard_level_1_def)

lemma hard_level_2_assign:
  "assign_player quiz_db 0 2 9 (hard_level_1 [''X'', ''Y'']) = Inr hard_level_2"
  by (simp add: assign_player_def exclude_used_def state_values_def quiz_pool_9 has_key_def
      level_2_keys random_choice_def hard_level_1_def hard_level_2_def)

lemma hard_level_2_first:
  "render_level quiz_db no_click 2 9 10 (hard_level_1 [''X'', ''Y''])
   = (NotEvaluated, Return False, hard_level_2)"
proof -
  have a: "assign_player quiz_db (choice_player no_click) 2 9 (hard_level_1 [''X'', ''Y'']) = Inr hard_level_2"
    using hard_level_2_assign by (simp add: no_click_def)
  have la: "level_answers_of quiz_db 2 hard_level_2 = Inr [''X'']"
    by (simp add: level_answers_of_def hard_level_2_def hard_level_1_def level_2_keys quiz_player_B)
  show ?thesis
    by (simp only: render_level_def a la sum.case Let_def)
       (simp add: evaluate_selection_def level_2_keys no_click_def hard_level_2_def hard_level_1_def)
qed

lemma hard_second_pass:
  "create_streamlit_app quiz_db hard_answer (hard_level_1 []) = (Return (), hard_level_2)"
proof -
  have init: "init_reveals ''Hard'' (hard_level_1 []) = hard_level_1 []"
    by (simp add: init_reveals_def has_key_def hard_level_1_def)
  have cur: "has_key (hard_level_1 []) ''current_difficulty''"
    "map_of (hard_level_1 []) ''current_difficulty'' = Some (VStr ''Hard'')"
    by (simp_all add: has_key_def hard_level_1_def)
  show ?thesis
    by (simp add: create_streamlit_app_def quiz_date hard_answer_def init cur hard_calls
        hard_level_1_answer hard_level_2_first)
qed

lemma hard_session:
  "run_session [(quiz_db, hard_first), (quiz_db, hard_answer)] [] = hard_level_2"
  by (simp add: run_session_def hard_first_pass hard_second_pass)

text \<open>
  Claim C4. Within a run no player is held by two levels. A level without a player
  draws one from \<open>load_players db m\<close> minus every name that is a value of the session
  state, so the drawn player differs from the players of all other levels; a stored
  player stays as it is unless the call ends in a rerun after a verdict (the restart
  after a wrong answer, or "Play Again"); every call of \<open>render_level\<close> keeps the levels
  1 to 10 pairwise different in their players; and so does every sequence of passes
  from the empty state.
\<close>

theorem one_player_per_level:
  "(\<not> has_key s (player_key level) \<and> assign_player db r level m s = Inr s1
      \<longrightarrow> (\<exists>p. map_of s1 (player_key level) = Some (VStr p)
                \<and> p \<in> set (load_players db m) \<and> VStr p \<notin> set (state_values s)))
   \<and> (has_key s (player_key k) \<and> render_level db inp level m start s = (v, c, s')
        \<and> \<not> (c = Rerun \<and> v \<noteq> NotEvaluated)
      \<longrightarrow> map_of s' (player_key k) = map_of s (player_key k))
   \<and> (players_injective s
      \<longrightarrow> players_injective (snd (snd (render_level db inp level m start s))))
   \<and> players_injective (run_session passes [])"
proof (intro conjI impI)
  assume a: "\<not> has_key s (player_key level) \<and> assign_player db r level m s = Inr s1"
  then have "assign_player db r level m s = Inr s1" by (rule conjunct2)
  from assign_player_Inr[OF this] a obtain p where
    p: "map_of s1 (player_key level) = Some (VStr p)"
      "random_choice r (exclude_used s (load_players db m)) = Inr p" by blast
  from drawn_player_unused[OF p(2)] p(1)
  show "\<exists>p. map_of s1 (player_key level) = Some (VStr p)
           \<and> p \<in> set (load_players db m) \<and> VStr p \<notin> set (state_values s)" by blast
next
  assume "has_key s (player_key k) \<and> render_level db inp level m start s = (v, c, s')
        \<and> \<not> (c = Rerun \<and> v \<noteq> NotEvaluated)"
  then show "map_of s' (player_key k) = map_of s (player_key k)"
    using render_level_sticky[of s k db inp level m start v c s'] by blast
next
  assume "players_injective s"
  then show "players_injective (snd (snd (render_level db inp level m start s)))"
    by (rule render_level_injective)
next
  show "players_injective (run_session passes [])"
    by (rule run_session_injective[OF players_injective_empty])
qed

theorem one_player_per_level_witness:
  "\<not> has_key (hard_level_1 [''X'', ''Y'']) (player_key 2)
   \<and> assign_player quiz_db 0 2 9 (hard_level_1 [''X'', ''Y'']) = Inr hard_level_2
   \<and> (\<exists>p. map_of hard_level_2 (player_key 2) = Some (VStr p)
          \<and> p \<in> set (load_players quiz_db 9)
          \<and> VStr p \<notin> set (state_values (hard_level_1 [''X'', ''Y''])))
   \<and> run_session [(quiz_db, hard_first), (quiz_db, hard_answer)] [] = hard_level_2
   \<and> map_of hard_level_2 (player_key 1) = Some (VStr ''A'')
   \<and> map_of hard_level_2 (player_key 2) = Some (VStr ''B'')
   \<and> players_injective hard_level_2"
proof -
  have absent: "\<not> has_key (hard_level_1 [''X'', ''Y'']) (player_key 2)"
    by (simp add: has_key_def hard_level_1_def level_2_keys)
  note inst = one_player_per_level[of "hard_level_1 [''X'', ''Y'']" 2 quiz_db 0 9 hard_level_2
      _ _ _ _ _ _ "[(quiz_db, hard_first), (quiz_db, hard_answer)]"]
  from inst absent hard_level_2_assign
  have drawn: "\<exists>p. map_of hard_level_2 (player_key 2) = Some (VStr p)
          \<and> p \<in> set (load_players quiz_db 9)
          \<and> VStr p \<notin> set (state_values (hard_level_1 [''X'', ''Y'']))" by blast
  from inst have inj: "players_injective hard_level_2" unfolding hard_session by blast
  have p1: "map_of hard_level_2 (player_key 1) = Some (VStr ''A'')"
    by (simp add: hard_level_2_def hard_level_1_def level_1_keys)
  have p2: "map_of hard_level_2 (player_key 2) = Some (VStr ''B'')"
    by (simp add: hard_level_2_def hard_level_1_def level_2_keys)
  from absent hard_level_2_assign drawn hard_session p1 p2 inj show ?thesis by blast
qed

section \<open>The variant's data access\<close>

lemma connect_without_arguments: "connect_to_sql_alchemy_server db [] = Inr db"
  by (simp add: connect_to_sql_alchemy_server_def bind_keywords_def)

lemma variant_connect_raises: "variant_connect db = Inl TypeError"
  by (simp add: variant_connect_def connect_to_sql_alchemy_server_def bind_keywords_def)

text \<open>
  Claim C10. In the variant source each of the four data-access functions passes the
  keyword \<^verbatim>\<open>server_type\<close> to a function that declares no parameter: for every table and
  every argument the call raises TypeError, and no query result is returned.
\<close>

theorem variant_data_access_raises:
  "variant_load_latest_game_date db = Inl TypeError
   \<and> variant_load_players db minimum_seasons = Inl TypeError
   \<and> variant_load_players_data db player = Inl TypeError
   \<and> variant_load_unique_teams db = Inl TypeError"
  by (simp add: variant_load_latest_game_date_def variant_load_players_def
      variant_load_players_data_def variant_load_unique_teams_def variant_connect_raises)

end
